theory Spec2Isabelle
  imports Complex_Main "HOL-Library.Word" "HOL-Library.AList" "HOL-Library.Char_ord"
    "HOL-Library.List_Lexorder"
begin

section \<open>Basic types\<close>

text \<open>
  Go's \<open>int64\<close> is a 64-bit word read in two's complement (\<open>sint\<close>, \<open><s\<close>, \<open>\<le>s\<close>);
  \<open>+\<close> and \<open>-\<close> wrap around as in Go.  A \<open>[]byte\<close> is a list of 8-bit words, a Go
  \<open>string\<close> a list of bytes (\<open>char list\<close>).  A \<open>uuid.UUID\<close> is a \<open>[16]byte\<close>: it is read
  as a 128-bit big-endian number, so that \<open>bytes.Compare\<close> on two of them is \<open><\<close>.
  A \<open>time.Time\<close> is an integer whose value 0 is the zero time (\<open>IsZero\<close>).
\<close>

type_synonym int64 = "64 word"
type_synonym bytes = "8 word list"
type_synonym uuid = "128 word"
type_synonym time = int

text \<open>
  Errors are identified by the sentinel they wrap (\<open>errors.Is\<close>); an error built by
  \<open>fmt.Errorf\<close> without \<open>%w\<close> is \<open>ErrOther\<close> with its message.
\<close>

datatype error =
    ErrInvalidRequest
  | ErrAuctionUnavailable
  | ErrAuctionTooOld
  | ErrAuctionTooNew
  | ErrAuctionFinished
  | ErrNotFound
  | ErrInvalidKey
  | ErrBadSignature
  | ErrNoPayment
  | ErrOther string

text \<open>What a call does when it may also panic or wait forever.\<close>

datatype 'a outcome = Returns 'a | Panics | Blocks

section \<open>package chain: condCache\<close>

record 'v condItem =
  val :: "'v option"
  err :: "error option"
  ready :: bool

record 'k seq =
  seq_set :: "'k list"
  seq_max :: nat

text \<open>
  The items are shared by pointer between the cache and the callers of \<open>Get\<close>: they live
  in \<open>items\<close>, and a pointer is an index into it.  The map \<open>cache\<close> is an association list
  with one entry per key, so that \<open>len(c.cache)\<close> is its length.
\<close>

record ('k, 'v) condCache =
  limit :: nat
  cache :: "('k \<times> nat) list"
  order :: "'k seq"
  items :: "'v condItem list"

definition newCondCache :: "nat \<Rightarrow> ('k, 'v) condCache" where
  "newCondCache n =
     \<lparr>limit = n, cache = [], order = \<lparr>seq_set = [], seq_max = n\<rparr>, items = []\<rparr>"

definition cond_Len :: "('k, 'v) condCache \<Rightarrow> nat" where
  "cond_Len c = length (cache c)"

definition newCondItem :: "'v condItem" where
  "newCondItem = \<lparr>val = None, err = None, ready = False\<rparr>"

text \<open>\<open>condItem.get\<close> waits until the item is ready: with no one to set it, forever.\<close>

definition item_get :: "'v condItem \<Rightarrow> ('v option \<times> error option) outcome" where
  "item_get x = (if ready x then Returns (val x, err x) else Blocks)"

definition item_set :: "'v condItem \<Rightarrow> 'v option \<Rightarrow> error option \<Rightarrow> 'v condItem" where
  "item_set x v e = (if \<not> ready x then x\<lparr>val := v, err := e, ready := True\<rparr> else x)"

text \<open>
  \<open>seq.poke\<close>: the first occurrence of the key moves to the back of the line (or the key
  is appended); the deferred function then cuts the \<open>d = len - max\<close> keys at the front
  and returns them.
\<close>

definition poke :: "'k seq \<Rightarrow> 'k \<Rightarrow> 'k list \<times> 'k seq" where
  "poke s k =
     (let line = remove1 k (seq_set s) @ [k];
          d = int (length line) - int (seq_max s)
      in if d > 0 then (take (nat d) line, s\<lparr>seq_set := drop (nat d) line\<rparr>)
         else ([], s\<lparr>seq_set := line\<rparr>))"

text \<open>
  \<open>seq.drop\<close> ranges over the slice as it was when the loop started (\<open>n\<close> elements of the
  backing array \<open>arr\<close>) while \<open>s.set\<close>, the first \<open>cur\<close> elements of the same array, shrinks
  under it: each match at \<open>i\<close> moves \<open>arr[i+1:cur]\<close> one place down.  \<open>s.set[i+1:]\<close> panics
  when \<open>i + 1 > cur\<close>.
\<close>

function drop_loop :: "'k \<Rightarrow> nat \<Rightarrow> nat \<Rightarrow> 'k list \<Rightarrow> nat \<Rightarrow> 'k list outcome" where
  "drop_loop k n i arr cur =
     (if n \<le> i then Returns (take cur arr)
      else if arr ! i = k then
        (if cur < i + 1 then Panics
         else drop_loop k n (i + 1)
                (take i arr @ take (cur - (i + 1)) (drop (i + 1) arr) @ drop (cur - 1) arr)
                (cur - 1))
      else drop_loop k n (i + 1) arr cur)"
  by pat_completeness auto
termination
  by (relation "measure (\<lambda>(k, n, i, arr, cur). n - i)") auto

definition seq_drop :: "'k seq \<Rightarrow> 'k \<Rightarrow> 'k seq outcome" where
  "seq_drop s k =
     (case drop_loop k (length (seq_set s)) 0 (seq_set s) (length (seq_set s)) of
        Returns xs \<Rightarrow> Returns (s\<lparr>seq_set := xs\<rparr>)
      | Panics \<Rightarrow> Panics
      | Blocks \<Rightarrow> Blocks)"

text \<open>
  \<open>condCache.get\<close>: the item of the key and whether it was there; the deferred function
  pokes the key and deletes from the map every key the line gave up.
\<close>

definition cond_get :: "('k, 'v) condCache \<Rightarrow> 'k \<Rightarrow> (nat \<times> bool) \<times> ('k, 'v) condCache" where
  "cond_get c k =
     (let (res, c1) =
            (case map_of (cache c) k of
               Some item \<Rightarrow> ((item, True), c)
             | None \<Rightarrow>
                 (let item = length (items c)
                  in ((item, False),
                      c\<lparr>cache := AList.update k item (cache c),
                        items := items c @ [newCondItem]\<rparr>)));
          (kills, s) = poke (order c1) k
      in (res, c1\<lparr>order := s, cache := fold AList.delete kills (cache c1)\<rparr>))"

definition cond_del :: "('k, 'v) condCache \<Rightarrow> 'k \<Rightarrow> ('k, 'v) condCache outcome" where
  "cond_del c k =
     (let c1 =
            (case map_of (cache c) k of
               Some item \<Rightarrow>
                 c\<lparr>items := (items c)
                     [item := item_set (items c ! item) None (Some (ErrOther ''deleted''))]\<rparr>
             | None \<Rightarrow> c)
      in case seq_drop (order c1) k of
           Returns s \<Rightarrow> Returns (c1\<lparr>cache := AList.delete k (cache c1), order := s\<rparr>)
         | Panics \<Rightarrow> Panics
         | Blocks \<Rightarrow> Blocks)"

text \<open>\<open>condCache.Get\<close>, one caller at a time.\<close>

definition cond_Get ::
  "('k, 'v) condCache \<Rightarrow> 'k \<Rightarrow> ('k \<Rightarrow> 'v option \<times> error option) \<Rightarrow>
   (('v option \<times> error option) \<times> ('k, 'v) condCache) outcome" where
  "cond_Get c k fill =
     (let ((item, valid), c1) = cond_get c k
      in if valid then
           (case item_get (items c1 ! item) of
              Returns r \<Rightarrow> Returns (r, c1)
            | Panics \<Rightarrow> Panics
            | Blocks \<Rightarrow> Blocks)
         else
           (let (v, e) = fill k
            in case (if e \<noteq> None then cond_del c1 k else Returns c1) of
                 Returns c2 \<Rightarrow>
                   Returns ((v, e),
                     c2\<lparr>items := (items c2)[item := item_set (items c2 ! item) v e]\<rparr>)
               | Panics \<Rightarrow> Panics
               | Blocks \<Rightarrow> Blocks))"

section \<open>package chain: ringCache\<close>

record ('k, 'v) ringItem =
  rkey :: 'k
  rvalue :: "'v option"
  rerr :: "error option"
  rok :: bool

record ('k, 'v) ringCache =
  index :: "('k \<times> nat) list"
  ring :: "nat option list"
  head :: nat
  ritems :: "('k, 'v) ringItem list"

definition newRingCache :: "nat \<Rightarrow> ('k, 'v) ringCache" where
  "newRingCache capacity =
     \<lparr>index = [], ring = replicate capacity None, head = 0, ritems = []\<rparr>"

definition ring_Len :: "('k, 'v) ringCache \<Rightarrow> nat" where
  "ring_Len c = length (index c)"

text \<open>
  \<open>ringCache.item\<close>: the slot of a known key, else a fresh item in the slot at \<open>head\<close>,
  whose previous key leaves the index.  Indexing the ring out of range panics.
\<close>

definition ring_item ::
  "('k, 'v) ringCache \<Rightarrow> 'k \<Rightarrow> (nat option \<times> ('k, 'v) ringCache) outcome" where
  "ring_item c k =
     (case map_of (index c) k of
        Some pos \<Rightarrow> (if pos < length (ring c) then Returns (ring c ! pos, c) else Panics)
      | None \<Rightarrow>
          (if length (ring c) \<le> head c then Panics
           else
             (let idx = (case ring c ! head c of
                           Some old \<Rightarrow> AList.delete (rkey (ritems c ! old)) (index c)
                         | None \<Rightarrow> index c);
                  it = length (ritems c)
              in Returns (Some it,
                   c\<lparr>index := AList.update k (head c) idx,
                     ring := (ring c)[head c := Some it],
                     head := (head c + 1) mod length (ring c),
                     ritems := ritems c @ [\<lparr>rkey = k, rvalue = None, rerr = None, rok = False\<rparr>]\<rparr>))))"

definition ring_del :: "('k, 'v) ringCache \<Rightarrow> 'k \<Rightarrow> ('k, 'v) ringCache outcome" where
  "ring_del c k =
     (case map_of (index c) k of
        None \<Rightarrow> Returns c
      | Some pos \<Rightarrow>
          (if pos < length (ring c)
           then Returns (c\<lparr>ring := (ring c)[pos := None], index := AList.delete k (index c)\<rparr>)
           else Panics))"

text \<open>\<open>ringCache.Get\<close>, one caller at a time; a nil item panics at its lock.\<close>

definition ring_Get ::
  "('k, 'v) ringCache \<Rightarrow> 'k \<Rightarrow> ('k \<Rightarrow> 'v option \<times> error option) \<Rightarrow>
   (('v option \<times> error option) \<times> ('k, 'v) ringCache) outcome" where
  "ring_Get c k fill =
     (case ring_item c k of
        Returns (None, c1) \<Rightarrow> Panics
      | Returns (Some it, c1) \<Rightarrow>
          (let x = ritems c1 ! it
           in if rok x then Returns ((rvalue x, rerr x), c1)
              else
                (let (v, e) = fill k;
                     c2 = c1\<lparr>ritems := (ritems c1)[it := x\<lparr>rvalue := v, rerr := e, rok := True\<rparr>]\<rparr>
                 in if e \<noteq> None then
                      (case ring_del c2 k of
                         Returns c3 \<Rightarrow> Returns ((v, e), c3)
                       | Panics \<Rightarrow> Panics
                       | Blocks \<Rightarrow> Blocks)
                    else Returns ((v, e), c2)))
      | Panics \<Rightarrow> Panics
      | Blocks \<Rightarrow> Blocks)"

section \<open>Sequences of cache operations\<close>

datatype ('k, 'v) cache_op = OpGet 'k "'k \<Rightarrow> 'v option \<times> error option" | OpLen

fun cond_run ::
  "('k, 'v) condCache \<Rightarrow> ('k, 'v) cache_op list \<Rightarrow> ('k, 'v) condCache outcome" where
  "cond_run c [] = Returns c"
| "cond_run c (OpLen # ops) = cond_run c ops"
| "cond_run c (OpGet k fill # ops) =
     (case cond_Get c k fill of
        Returns (r, c1) \<Rightarrow> cond_run c1 ops
      | Panics \<Rightarrow> Panics
      | Blocks \<Rightarrow> Blocks)"

fun ring_run ::
  "('k, 'v) ringCache \<Rightarrow> ('k, 'v) cache_op list \<Rightarrow> ('k, 'v) ringCache outcome" where
  "ring_run c [] = Returns c"
| "ring_run c (OpLen # ops) = ring_run c ops"
| "ring_run c (OpGet k fill # ops) =
     (case ring_Get c k fill of
        Returns (r, c1) \<Rightarrow> ring_run c1 ops
      | Panics \<Rightarrow> Panics
      | Blocks \<Rightarrow> Blocks)"

text \<open>A \<open>fill\<close> that succeeds with a fixed value, and the keys a run leaves cached.\<close>

definition fill_value :: "'v \<Rightarrow> 'k \<Rightarrow> 'v option \<times> error option" where
  "fill_value v k = (Some v, None)"

definition cached_keys :: "('k, 'v) condCache outcome \<Rightarrow> 'k list outcome" where
  "cached_keys r =
     (case r of Returns c \<Rightarrow> Returns (map fst (cache c)) | Panics \<Rightarrow> Panics | Blocks \<Rightarrow> Blocks)"

definition indexed_keys :: "('k, 'v) ringCache outcome \<Rightarrow> 'k list outcome" where
  "indexed_keys r =
     (case r of Returns c \<Rightarrow> Returns (map fst (index c)) | Panics \<Rightarrow> Panics | Blocks \<Rightarrow> Blocks)"

text \<open>
  The invariants of the two caches.  In a \<open>condCache\<close> the map and the line hold the
  same keys, once each, at most \<open>limit\<close> of them, and every cached item is ready.  In a
  \<open>ringCache\<close> every indexed key points at a slot of the ring that holds an item of
  that key.
\<close>

definition cond_struct :: "('k, 'v) condCache \<Rightarrow> bool" where
  "cond_struct c \<longleftrightarrow>
     distinct (map fst (cache c)) \<and> distinct (seq_set (order c)) \<and>
     set (map fst (cache c)) = set (seq_set (order c)) \<and>
     length (seq_set (order c)) \<le> limit c \<and> seq_max (order c) = limit c"

definition cond_inv :: "('k, 'v) condCache \<Rightarrow> bool" where
  "cond_inv c \<longleftrightarrow>
     distinct (map fst (cache c)) \<and> distinct (seq_set (order c)) \<and>
     set (map fst (cache c)) = set (seq_set (order c)) \<and>
     length (seq_set (order c)) \<le> limit c \<and> seq_max (order c) = limit c \<and>
     (\<forall>p \<in> set (cache c). snd p < length (items c) \<and> ready (items c ! snd p))"

definition ring_inv :: "('k, 'v) ringCache \<Rightarrow> bool" where
  "ring_inv c \<longleftrightarrow>
     distinct (map fst (index c)) \<and> head c < length (ring c) \<and>
     (\<forall>p \<in> set (index c). snd p < length (ring c) \<and>
        (\<exists>it. ring c ! snd p = Some it \<and> it < length (ritems c) \<and> rkey (ritems c ! it) = fst p))"


section \<open>float64\<close>

text \<open>
  A \<open>float64\<close> is a binary64 number: a finite value, kept as the rational it denotes, an
  infinity or a NaN.  The sign of a zero is not kept: only a division by zero or a
  formatted message could tell the two zeros apart, and \<open>evaluateBid\<close> divides by a
  positive total only.  \<open>f64_round\<close> rounds a rational to the nearest binary64 number,
  ties to the even mantissa, with 53 bits of mantissa above \<open>2^-1022\<close>, the fixed step
  \<open>2^-1074\<close> below it and an infinity from \<open>2^1024\<close> on.
\<close>

datatype float64 = Finite rat | PosInf | NegInf | NaN

function bitlen :: "int \<Rightarrow> int" where
  "bitlen n = (if n \<le> 0 then 0 else 1 + bitlen (n div 2))"
  by pat_completeness auto
termination
  by (relation "measure nat") auto

definition pow2 :: "int \<Rightarrow> rat" where
  "pow2 e = (if 0 \<le> e then 2 ^ nat e else 1 / 2 ^ nat (- e))"

text \<open>The exponent \<open>e\<close> with \<open>2^e \<le> x < 2^(e+1)\<close>, for a positive \<open>x\<close>.\<close>

definition floor_log2 :: "rat \<Rightarrow> int" where
  "floor_log2 x =
     (let (p, q) = quotient_of x;
          e = bitlen p - bitlen q
      in if pow2 e \<le> x then e else e - 1)"

definition round_half_even :: "rat \<Rightarrow> int" where
  "round_half_even x =
     (let f = \<lfloor>x\<rfloor>; r = x - of_int f
      in if r < 1 / 2 then f else if 1 / 2 < r then f + 1 else if even f then f else f + 1)"

definition f64_round :: "rat \<Rightarrow> float64" where
  "f64_round x =
     (if x = 0 then Finite 0
      else
        (let e = max (floor_log2 \<bar>x\<bar>) (- 1022);
             u = pow2 (e - 52);
             r = of_int (round_half_even (x / u)) * u
         in if 1023 \<le> e \<and> pow2 1024 \<le> \<bar>r\<bar> then (if 0 < x then PosInf else NegInf)
            else Finite r))"

text \<open>\<open>float64(i)\<close> for an \<open>int64\<close>.\<close>

definition f64_of_int64 :: "64 word \<Rightarrow> float64" where
  "f64_of_int64 i = f64_round (of_int (sint i))"

fun f64_neg :: "float64 \<Rightarrow> float64" where
  "f64_neg (Finite x) = Finite (- x)"
| "f64_neg PosInf = NegInf"
| "f64_neg NegInf = PosInf"
| "f64_neg NaN = NaN"

fun f64_add :: "float64 \<Rightarrow> float64 \<Rightarrow> float64" where
  "f64_add (Finite x) (Finite y) = f64_round (x + y)"
| "f64_add NaN _ = NaN"
| "f64_add _ NaN = NaN"
| "f64_add PosInf NegInf = NaN"
| "f64_add NegInf PosInf = NaN"
| "f64_add PosInf _ = PosInf"
| "f64_add NegInf _ = NegInf"
| "f64_add _ PosInf = PosInf"
| "f64_add _ NegInf = NegInf"

definition f64_sub :: "float64 \<Rightarrow> float64 \<Rightarrow> float64" where
  "f64_sub x y = f64_add x (f64_neg y)"

fun f64_abs :: "float64 \<Rightarrow> float64" where
  "f64_abs (Finite x) = Finite \<bar>x\<bar>"
| "f64_abs PosInf = PosInf"
| "f64_abs NegInf = PosInf"
| "f64_abs NaN = NaN"

fun f64_div :: "float64 \<Rightarrow> float64 \<Rightarrow> float64" where
  "f64_div (Finite x) (Finite y) =
     (if y = 0 then (if x = 0 then NaN else if 0 < x then PosInf else NegInf)
      else f64_round (x / y))"
| "f64_div NaN _ = NaN"
| "f64_div _ NaN = NaN"
| "f64_div (Finite x) _ = Finite 0"
| "f64_div PosInf (Finite y) = (if 0 \<le> y then PosInf else NegInf)"
| "f64_div NegInf (Finite y) = (if 0 \<le> y then NegInf else PosInf)"
| "f64_div _ _ = NaN"

fun f64_lt :: "float64 \<Rightarrow> float64 \<Rightarrow> bool" where
  "f64_lt (Finite x) (Finite y) = (x < y)"
| "f64_lt NaN _ = False"
| "f64_lt _ NaN = False"
| "f64_lt NegInf NegInf = False"
| "f64_lt NegInf _ = True"
| "f64_lt _ NegInf = False"
| "f64_lt PosInf _ = False"
| "f64_lt _ PosInf = True"


section \<open>package store: types\<close>

record Chain =
  cID :: string
  cNetwork :: string
  cPaymentDenom :: string
  cMekatekPaymentAddress :: string
  cTimeout :: int
  cNodeURIs :: "string list"
  cCreatedAt :: time
  cUpdatedAt :: time

record Auction =
  aChainID :: string
  aHeight :: int64
  aValidatorAddress :: string
  aValidatorAllocation :: float64
  aValidatorPaymentAddress :: string
  aMekatekPaymentAddress :: string
  aPaymentDenom :: string
  aRegisteredPower :: int64
  aTotalPower :: int64
  aCreatedAt :: time
  aFinishedAt :: time

record Payment =
  pFrom :: string
  pTo :: string
  pAmount :: int64

text \<open>\<open>BidState\<close> and \<open>BidKind\<close> are string types.\<close>

type_synonym BidState = string
type_synonym BidKind = string

definition BidStatePending :: BidState where "BidStatePending = ''pending''"
definition BidStateAccepted :: BidState where "BidStateAccepted = ''accepted''"
definition BidStateRejected :: BidState where "BidStateRejected = ''rejected''"

definition BidKindTop :: BidKind where "BidKindTop = ''top''"
definition BidKindBlock :: BidKind where "BidKindBlock = ''block''"

record Bid =
  bID :: uuid
  bChainID :: string
  bHeight :: int64
  bKind :: BidKind
  bTxs :: "bytes list"
  bPriority :: int64
  bMekatekPayment :: int64
  bValidatorPayment :: int64
  bPayments :: "Payment list"
  bState :: BidState
  bCreatedAt :: time
  bUpdatedAt :: time

record Challenge =
  chID :: uuid
  chChainID :: string
  chValidatorAddress :: string
  chPubKeyBytes :: bytes
  chPubKeyType :: string
  chPaymentAddress :: string
  chChallenge :: bytes
  chCreatedAt :: time

record Validator =
  vChainID :: string
  vAddress :: string
  vMoniker :: string
  vPubKeyBytes :: bytes
  vPubKeyType :: string
  vPaymentAddress :: string
  vCreatedAt :: time
  vUpdatedAt :: time

section \<open>What the Go libraries provide\<close>

text \<open>
  Code outside the repository, taken as parameters: the Unicode tables behind
  \<open>strings.ToLower\<close> and \<open>strings.EqualFold\<close> (asked only about strings that are not pure
  ASCII), the signing blobs and the hash of \<open>mekabuild\<close>, and \<open>uuid.UUID.String\<close>.
\<close>

record lib =
  unicode_ToLower :: "string \<Rightarrow> string"
  unicode_EqualFold :: "string \<Rightarrow> string \<Rightarrow> bool"
  mekabuild_HashTxs :: "bytes list \<Rightarrow> bytes"
  RegisterChallengeSignBytes :: "string \<Rightarrow> bytes \<Rightarrow> bytes"
  BuildBlockRequestSignBytes :: "string \<Rightarrow> int64 \<Rightarrow> string \<Rightarrow> int64 \<Rightarrow> int64 \<Rightarrow> bytes \<Rightarrow> bytes"
  uuid_String :: "uuid \<Rightarrow> string"

text \<open>What a call reads from the clock and the random source.\<close>

record env =
  time_Now :: time
  uuid_NewV4 :: "error + uuid"
  RandomBytes :: "nat \<Rightarrow> bytes"

definition is_ascii :: "string \<Rightarrow> bool" where
  "is_ascii s = list_all (\<lambda>c. of_char c < (128::nat)) s"

definition ascii_lower :: "char \<Rightarrow> char" where
  "ascii_lower c =
     (if of_char CHR ''A'' \<le> (of_char c :: nat) \<and> (of_char c :: nat) \<le> of_char CHR ''Z''
      then char_of (of_char c + (32::nat)) else c)"

definition ascii_upper :: "char \<Rightarrow> char" where
  "ascii_upper c =
     (if of_char CHR ''a'' \<le> (of_char c :: nat) \<and> (of_char c :: nat) \<le> of_char CHR ''z''
      then char_of (of_char c - (32::nat)) else c)"

text \<open>\<open>strings.ToLower\<close>: bytewise on an ASCII string, by the Unicode tables otherwise.\<close>

definition ToLower :: "lib \<Rightarrow> string \<Rightarrow> string" where
  "ToLower L s = (if is_ascii s then map ascii_lower s else unicode_ToLower L s)"

text \<open>\<open>strings.EqualFold\<close>, likewise.\<close>

definition EqualFold :: "lib \<Rightarrow> string \<Rightarrow> string \<Rightarrow> bool" where
  "EqualFold L s t =
     (if is_ascii s \<and> is_ascii t then map ascii_lower s = map ascii_lower t
      else unicode_EqualFold L s t)"

definition ParseBidState :: "lib \<Rightarrow> string \<Rightarrow> BidState" where
  "ParseBidState L s =
     (if ToLower L s = BidStateAccepted then BidStateAccepted
      else if ToLower L s = BidStateRejected then BidStateRejected
      else BidStatePending)"

definition ParseBidKind :: "lib \<Rightarrow> string \<Rightarrow> BidKind" where
  "ParseBidKind L s = (if ToLower L s = BidKindBlock then BidKindBlock else BidKindTop)"

section \<open>package cryptoutil\<close>

definition hex_digit :: "nat \<Rightarrow> char" where
  "hex_digit n = (if n < 10 then char_of (48 + n) else char_of (87 + n))"

text \<open>\<open>hex.EncodeToString\<close>: two lower-case digits for each byte.\<close>

definition hex_EncodeToString :: "bytes \<Rightarrow> string" where
  "hex_EncodeToString bs = concat (map (\<lambda>b. [hex_digit (unat b div 16), hex_digit (unat b mod 16)]) bs)"

definition HashTx :: "lib \<Rightarrow> bytes \<Rightarrow> string" where
  "HashTx L txb = map ascii_upper (hex_EncodeToString (mekabuild_HashTxs L [txb]))"

section \<open>package memstore\<close>

text \<open>
  The maps of the store.  The validators are kept as an association list, since
  \<open>ListValidators\<close> ranges over them; a missing key of \<open>bids\<close> reads as the empty slice.
\<close>

record Store =
  bids :: "string \<times> int64 \<Rightarrow> Bid list"
  auctions :: "string \<times> int64 \<rightharpoonup> Auction"
  challenges :: "string \<rightharpoonup> Challenge"
  validators :: "((string \<times> string) \<times> Validator) list"
  chains :: "string \<rightharpoonup> Chain"

definition NewStore :: Store where
  "NewStore = \<lparr>bids = (\<lambda>k. []), auctions = Map.empty, challenges = Map.empty,
                validators = [], chains = Map.empty\<rparr>"

definition InsertBid :: "Store \<Rightarrow> env \<Rightarrow> Bid \<Rightarrow> error + (Bid \<times> Store)" where
  "InsertBid s E b =
     (case uuid_NewV4 E of
        Inl e \<Rightarrow> Inl e
      | Inr i \<Rightarrow>
          (let b1 = b\<lparr>bID := i, bCreatedAt := time_Now E\<rparr>;
               k = (bChainID b1, bHeight b1)
           in Inr (b1, s\<lparr>bids := (bids s)(k := bids s k @ [b1])\<rparr>)))"

text \<open>The first stored bid with the ID of \<open>b\<close> takes its state.\<close>

fun update_first :: "Bid \<Rightarrow> time \<Rightarrow> Bid list \<Rightarrow> Bid list" where
  "update_first b t [] = []"
| "update_first b t (x # xs) =
     (if bID b = bID x then x\<lparr>bState := bState b, bUpdatedAt := t\<rparr> # xs
      else x # update_first b t xs)"

fun UpdateBids :: "Store \<Rightarrow> env \<Rightarrow> Bid list \<Rightarrow> Store" where
  "UpdateBids s E [] = s"
| "UpdateBids s E (b # bs) =
     (let k = (bChainID b, bHeight b)
      in UpdateBids (s\<lparr>bids := (bids s)(k := update_first b (time_Now E) (bids s k))\<rparr>) E bs)"

definition ListBids :: "Store \<Rightarrow> string \<Rightarrow> int64 \<Rightarrow> Bid list" where
  "ListBids s chainID height = bids s (chainID, height)"

text \<open>
  \<open>UpsertAuction\<close>: on an existing row only \<open>FinishedAt\<close> changes; a new row is stamped.  The
  caller's auction is stamped too when it is created.
\<close>

definition UpsertAuction :: "Store \<Rightarrow> env \<Rightarrow> Auction \<Rightarrow> Auction \<times> Store" where
  "UpsertAuction s E a =
     (let k = (aChainID a, aHeight a)
      in case auctions s k of
           Some existing \<Rightarrow>
             (a, s\<lparr>auctions := (auctions s)(k \<mapsto> existing\<lparr>aFinishedAt := aFinishedAt a\<rparr>)\<rparr>)
         | None \<Rightarrow>
             (let a1 = a\<lparr>aCreatedAt := time_Now E\<rparr>
              in (a1, s\<lparr>auctions := (auctions s)(k \<mapsto> a1)\<rparr>)))"

definition SelectAuction :: "Store \<Rightarrow> string \<Rightarrow> int64 \<Rightarrow> error + Auction" where
  "SelectAuction s chainID height =
     (case auctions s (chainID, height) of Some a \<Rightarrow> Inr a | None \<Rightarrow> Inl ErrNotFound)"

definition InsertChallenge :: "lib \<Rightarrow> Store \<Rightarrow> env \<Rightarrow> Challenge \<Rightarrow> error + (Challenge \<times> Store)" where
  "InsertChallenge L s E c =
     (case uuid_NewV4 E of
        Inl e \<Rightarrow> Inl e
      | Inr i \<Rightarrow>
          (let c1 = c\<lparr>chID := i, chCreatedAt := time_Now E\<rparr>
           in Inr (c1, s\<lparr>challenges := (challenges s)(uuid_String L i \<mapsto> c1)\<rparr>)))"

definition SelectChallenge :: "Store \<Rightarrow> string \<Rightarrow> error + Challenge" where
  "SelectChallenge s i = (case challenges s i of Some c \<Rightarrow> Inr c | None \<Rightarrow> Inl ErrNotFound)"

definition DeleteChallenge :: "Store \<Rightarrow> string \<Rightarrow> error option \<times> Store" where
  "DeleteChallenge s i =
     (case challenges s i of
        None \<Rightarrow> (Some ErrNotFound, s)
      | Some c \<Rightarrow> (None, s\<lparr>challenges := (challenges s)(i := None)\<rparr>))"

text \<open>\<open>UpsertValidator\<close>; the caller's validator is stamped when it is created.\<close>

definition UpsertValidator :: "Store \<Rightarrow> env \<Rightarrow> Validator \<Rightarrow> Validator \<times> Store" where
  "UpsertValidator s E v =
     (let k = (vChainID v, vAddress v)
      in case map_of (validators s) k of
           Some existing \<Rightarrow>
             (v, s\<lparr>validators := AList.update k
                  (existing\<lparr>vMoniker := vMoniker v, vPaymentAddress := vPaymentAddress v,
                     vUpdatedAt := time_Now E\<rparr>) (validators s)\<rparr>)
         | None \<Rightarrow>
             (let v1 = v\<lparr>vCreatedAt := time_Now E\<rparr>
              in (v1, s\<lparr>validators := AList.update k v1 (validators s)\<rparr>)))"

definition SelectValidator :: "Store \<Rightarrow> string \<Rightarrow> string \<Rightarrow> error + Validator" where
  "SelectValidator s chainID addr =
     (case map_of (validators s) (chainID, addr) of Some v \<Rightarrow> Inr v | None \<Rightarrow> Inl ErrNotFound)"

definition ListValidators :: "Store \<Rightarrow> string \<Rightarrow> Validator list" where
  "ListValidators s chainID =
     sort_key vAddress (filter (\<lambda>v. vChainID v = chainID) (map snd (validators s)))"

definition SelectChain :: "Store \<Rightarrow> string \<Rightarrow> error + Chain" where
  "SelectChain s i = (case chains s i of Some c \<Rightarrow> Inr c | None \<Rightarrow> Inl ErrNotFound)"

definition UpsertChain :: "Store \<Rightarrow> env \<Rightarrow> Chain \<Rightarrow> Store" where
  "UpsertChain s E c =
     (case chains s (cID c) of
        Some existing \<Rightarrow> s\<lparr>chains := (chains s)(cID c \<mapsto> c\<lparr>cUpdatedAt := time_Now E\<rparr>)\<rparr>
      | None \<Rightarrow>
          s\<lparr>chains := (chains s)(cID c \<mapsto> c\<lparr>cCreatedAt := time_Now E, cUpdatedAt := time_Now E\<rparr>)\<rparr>)"

text \<open>An auction is finished when its row is there with a \<open>FinishedAt\<close> that is not zero.\<close>

definition finished :: "Store \<Rightarrow> string \<Rightarrow> int64 \<Rightarrow> bool" where
  "finished s chainID height =
     (case auctions s (chainID, height) of Some a \<Rightarrow> aFinishedAt a \<noteq> 0 | None \<Rightarrow> False)"


section \<open>package chain: the chain adapter\<close>

record 'm Transaction =
  Messages :: "'m list"
  ByteCount :: "error + int64"
  GasAmount :: "error + int64"

record cValidator =
  cvAddress :: string
  cvMoniker :: string
  cvPaymentAddress :: string
  cvPubKeyType :: string
  cvPubKeyBytes :: bytes
  cvVotingPower :: int64
  cvProposerPriority :: int64

record ValidatorSet =
  vsHeight :: int64
  vsValidators :: "cValidator list"
  vsSet :: "string \<rightharpoonup> cValidator"
  vsTotalPower :: int64

text \<open>
  The interface \<open>chain.Chain\<close>, as the answers a chain gives while one request is served.
  An error result that is \<open>nil\<close> is \<open>None\<close>.
\<close>

record 'm chain =
  ID :: string
  ValidatePaymentAddress :: "string \<Rightarrow> error option"
  VerifySignature :: "string \<Rightarrow> bytes \<Rightarrow> bytes \<Rightarrow> bytes \<Rightarrow> error option"
  LatestHeight :: "error + int64"
  DecodeTransaction :: "bytes \<Rightarrow> error + 'm Transaction"
  EncodeTransaction :: "'m Transaction \<Rightarrow> error + bytes"
  AccountBalance :: "int64 \<Rightarrow> string \<Rightarrow> string \<Rightarrow> error + int64"
  GetValidatorSet :: "int64 \<Rightarrow> error + ValidatorSet"
  PredictProposer :: "ValidatorSet \<Rightarrow> int64 \<Rightarrow> error + cValidator"
  GetPayment :: "'m \<Rightarrow> string \<Rightarrow> error + (string \<times> string \<times> int64)"

section \<open>package block: util.go\<close>

definition FixedAllocation :: float64 where
  "FixedAllocation = f64_round (97 / 100)"

definition getTxBytes :: "'m chain \<Rightarrow> bytes \<Rightarrow> error + int64" where
  "getTxBytes c tx =
     (case DecodeTransaction c tx of
        Inl e \<Rightarrow> Inl e
      | Inr transaction \<Rightarrow> ByteCount transaction)"

definition getTxGas :: "'m chain \<Rightarrow> bytes \<Rightarrow> error + int64" where
  "getTxGas c tx =
     (case DecodeTransaction c tx of
        Inl e \<Rightarrow> Inl e
      | Inr transaction \<Rightarrow> GasAmount transaction)"

definition sameAddr :: "lib \<Rightarrow> string \<Rightarrow> string \<Rightarrow> bool" where
  "sameAddr L a b = EqualFold L a b"

section \<open>package block: evaluateBid\<close>

text \<open>
  The payments of the messages of one transaction, in order, each with whether it goes
  to the validator (\<open>True\<close>) or to Mekatek: a payment to the validator's address counts
  for the validator even when Mekatek has the same address.
\<close>

fun msgPayments :: "lib \<Rightarrow> 'm chain \<Rightarrow> Auction \<Rightarrow> 'm list \<Rightarrow> (bool \<times> Payment) list" where
  "msgPayments L c auction [] = []"
| "msgPayments L c auction (msg # msgs) =
     (case GetPayment c msg (aPaymentDenom auction) of
        Inl e \<Rightarrow> msgPayments L c auction msgs
      | Inr (src, dst, amount) \<Rightarrow>
          (if sameAddr L dst (aValidatorPaymentAddress auction)
           then (True, \<lparr>pFrom = src, pTo = dst, pAmount = amount\<rparr>) # msgPayments L c auction msgs
           else if sameAddr L dst (aMekatekPaymentAddress auction)
           then (False, \<lparr>pFrom = src, pTo = dst, pAmount = amount\<rparr>) # msgPayments L c auction msgs
           else msgPayments L c auction msgs))"

text \<open>
  The loop over the transactions of a bid: a transaction that does not decode, or does
  not encode again, stays as it is and pays nothing; any other is replaced by its
  normalized bytes and its payments are collected.
\<close>

fun evalTxs ::
  "lib \<Rightarrow> 'm chain \<Rightarrow> Auction \<Rightarrow> bytes list \<Rightarrow> bytes list \<times> (bool \<times> Payment) list" where
  "evalTxs L c auction [] = ([], [])"
| "evalTxs L c auction (txb # txbs) =
     (let (ns, ps) = evalTxs L c auction txbs
      in case DecodeTransaction c txb of
           Inl e \<Rightarrow> (txb # ns, ps)
         | Inr tx \<Rightarrow>
             (case EncodeTransaction c tx of
                Inl e \<Rightarrow> (txb # ns, ps)
              | Inr txbNormalized \<Rightarrow>
                  (txbNormalized # ns, msgPayments L c auction (Messages tx) @ ps)))"

text \<open>The running sums \<open>validatorPayment += amount\<close> and \<open>mekatekPayment += amount\<close>.\<close>

definition paymentSum :: "bool \<Rightarrow> (bool \<times> Payment) list \<Rightarrow> int64" where
  "paymentSum toValidator ps = sum_list (map (pAmount \<circ> snd) (filter (\<lambda>p. fst p = toValidator) ps))"

definition allocationTolerance :: float64 where
  "allocationTolerance = f64_round (1 / 100)"

definition isCorrectAllocation :: "float64 \<Rightarrow> int64 \<Rightarrow> int64 \<Rightarrow> int64 \<Rightarrow> bool" where
  "isCorrectAllocation allocation validatorPayment mekatekPayment totalPayment =
     (let wantValidatorAllocation = allocation;
          wantMekatekAllocation = f64_sub (Finite 1) allocation;
          haveValidatorAllocation = f64_div (f64_of_int64 validatorPayment) (f64_of_int64 totalPayment);
          haveMekatekAllocation = f64_div (f64_of_int64 mekatekPayment) (f64_of_int64 totalPayment);
          validatorAllocationDiff = f64_abs (f64_sub wantValidatorAllocation haveValidatorAllocation);
          mekatekAllocationDiff = f64_abs (f64_sub wantMekatekAllocation haveMekatekAllocation)
      in f64_lt validatorAllocationDiff allocationTolerance \<and>
         f64_lt mekatekAllocationDiff allocationTolerance)"

text \<open>
  \<open>evaluateBid\<close>: the bid with its normalized transactions, payments and priority, or the
  error.  Only the no-payment error wraps \<open>ErrInvalidRequest\<close>.
\<close>

definition evaluateBid :: "lib \<Rightarrow> 'm chain \<Rightarrow> Auction \<Rightarrow> Bid \<Rightarrow> error + Bid" where
  "evaluateBid L c auction bid =
     (let (txs, ps) = evalTxs L c auction (bTxs bid);
          validatorPayment = paymentSum True ps;
          mekatekPayment = paymentSum False ps;
          totalPayment = validatorPayment + mekatekPayment
      in if totalPayment \<le>s 0 then Inl ErrInvalidRequest
         else if \<not> isCorrectAllocation (aValidatorAllocation auction)
                    validatorPayment mekatekPayment totalPayment
         then Inl (ErrOther ''payment allocation does not satisfy the auction'')
         else Inr (bid\<lparr>bTxs := txs, bPriority := totalPayment,
                     bMekatekPayment := mekatekPayment, bValidatorPayment := validatorPayment,
                     bPayments := map snd ps\<rparr>))"

section \<open>package block: verifyAuction\<close>

text \<open>
  The voting power of the registered validators that are in the validator set.
\<close>

fun registeredPowerOf :: "ValidatorSet \<Rightarrow> Validator list \<Rightarrow> int64" where
  "registeredPowerOf vs [] = 0"
| "registeredPowerOf vs (v # rest) =
     (case vsSet vs (vAddress v) of
        Some cv \<Rightarrow> cvVotingPower cv + registeredPowerOf vs rest
      | None \<Rightarrow> registeredPowerOf vs rest)"

text \<open>
  \<open>verifyAuction\<close> runs on the store and returns it: the memory store's \<open>Transact\<close> calls
  the function on the store itself, so what it wrote stays written when it fails.

  \<open>verifyProposer\<close> is the part of \<open>verifyAuction\<close> after the window check: the predicted
  proposer must be registered, and the auction is fetched or created.
\<close>

definition verifyProposer ::
  "'m chain \<Rightarrow> Chain \<Rightarrow> ValidatorSet \<Rightarrow> int64 \<Rightarrow> Store \<Rightarrow> env \<Rightarrow>
   (error + (Auction \<times> Validator)) \<times> Store" where
  "verifyProposer c ch vs height tx E =
     (case PredictProposer c vs height of
        Inl e \<Rightarrow> (Inl e, tx)
      | Inr p \<Rightarrow>
     (case SelectValidator tx (ID c) (cvAddress p) of
        Inl e \<Rightarrow> (Inl (if e = ErrNotFound then ErrAuctionUnavailable else e), tx)
      | Inr auctionProposer \<Rightarrow>
          (let found =
                 (case SelectAuction tx (ID c) height of
                    Inr a \<Rightarrow> Inr (a, tx)
                  | Inl e \<Rightarrow>
                      (if e = ErrNotFound then
                         Inr (UpsertAuction tx E
                           \<lparr>aChainID = ID c, aHeight = height,
                            aValidatorAddress = vAddress auctionProposer,
                            aValidatorAllocation = FixedAllocation,
                            aValidatorPaymentAddress = vPaymentAddress auctionProposer,
                            aMekatekPaymentAddress = cMekatekPaymentAddress ch,
                            aPaymentDenom = cPaymentDenom ch,
                            aRegisteredPower = registeredPowerOf vs (ListValidators tx (ID c)),
                            aTotalPower = vsTotalPower vs,
                            aCreatedAt = 0, aFinishedAt = 0\<rparr>)
                       else Inl e))
           in case found of
                Inl e \<Rightarrow> (Inl e, tx)
              | Inr (a, tx1) \<Rightarrow>
                  (if aFinishedAt a \<noteq> 0 then (Inl ErrAuctionFinished, tx1)
                   else if vAddress auctionProposer \<noteq> aValidatorAddress a
                   then (Inl (ErrOther ''mismatched validators''), tx1)
                   else (Inr (a, auctionProposer), tx1)))))"

definition verifyAuction ::
  "'m chain \<Rightarrow> int64 \<Rightarrow> int64 \<Rightarrow> Store \<Rightarrow> env \<Rightarrow> (error + (Auction \<times> Validator)) \<times> Store" where
  "verifyAuction c height maxHeightOffset tx E =
     (case SelectChain tx (ID c) of
        Inl e \<Rightarrow> (Inl e, tx)
      | Inr ch \<Rightarrow>
     (case LatestHeight c of
        Inl e \<Rightarrow> (Inl e, tx)
      | Inr latestHeight \<Rightarrow>
     (case GetValidatorSet c latestHeight of
        Inl e \<Rightarrow> (Inl e, tx)
      | Inr vs \<Rightarrow>
     (if vsHeight vs \<noteq> latestHeight then (Inl (ErrOther ''mismatch''), tx)
      else
        (let minHeight = latestHeight;
             maxHeight = latestHeight + maxHeightOffset
         in if height <s minHeight then (Inl ErrAuctionTooOld, tx)
            else if maxHeight <s height then (Inl ErrAuctionTooNew, tx)
            else verifyProposer c ch vs height tx E)))))"


section \<open>package block: computeOrder\<close>

text \<open>The first loop: a bid with the empty state is evaluated; the first error ends it.\<close>

fun evaluateAll :: "lib \<Rightarrow> 'm chain \<Rightarrow> Auction \<Rightarrow> Bid list \<Rightarrow> error + Bid list" where
  "evaluateAll L c auction [] = Inr []"
| "evaluateAll L c auction (bid # rest) =
     (case (if bState bid = [] then evaluateBid L c auction bid else Inr bid) of
        Inl e \<Rightarrow> Inl e
      | Inr b \<Rightarrow>
          (case evaluateAll L c auction rest of
             Inl e \<Rightarrow> Inl e
           | Inr bs \<Rightarrow> Inr (b # bs)))"

text \<open>
  The balance of every sender of a payment, at the height before the auction's; a sender
  whose balance query fails has no entry, which reads as 0.
\<close>

definition queryBalances :: "'m chain \<Rightarrow> Auction \<Rightarrow> Bid list \<Rightarrow> (string \<rightharpoonup> int64)" where
  "queryBalances c auction evaluatedBids =
     (\<lambda>addr. if addr \<in> set (concat (map (map pFrom \<circ> bPayments) evaluatedBids))
             then (case AccountBalance c (aHeight auction - 1) addr (aPaymentDenom auction) of
                     Inl e \<Rightarrow> None
                   | Inr balance \<Rightarrow> Some balance)
             else None)"

text \<open>
  \<open>sort.SliceStable\<close> with the order of \<open>computeOrder\<close>: the higher priority first, then
  the smaller ID.  A stable sort by an order of this kind is insertion from the right.
\<close>

definition bid_less :: "Bid \<Rightarrow> Bid \<Rightarrow> bool" where
  "bid_less b1 b2 =
     (if bPriority b1 \<noteq> bPriority b2 then bPriority b2 <s bPriority b1 else bID b1 < bID b2)"

fun insert_bid :: "Bid \<Rightarrow> Bid list \<Rightarrow> Bid list" where
  "insert_bid b [] = [b]"
| "insert_bid b (x # xs) = (if bid_less x b then x # insert_bid b xs else b # x # xs)"

definition sort_bids :: "Bid list \<Rightarrow> Bid list" where
  "sort_bids bs = foldr insert_bid bs []"

text \<open>The payments of a bid taken off a copy of the balances; \<open>None\<close> when one goes below 0.\<close>

fun debit :: "(string \<rightharpoonup> int64) \<Rightarrow> Payment list \<Rightarrow> (string \<rightharpoonup> int64) option" where
  "debit bal [] = Some bal"
| "debit bal (p # ps) =
     (let balance = (case bal (pFrom p) of Some b \<Rightarrow> b | None \<Rightarrow> 0);
          result = balance - pAmount p
      in if result <s 0 then None else debit (bal(pFrom p \<mapsto> result)) ps)"

record walkState =
  winningBids :: "Bid list"
  rejectedBids :: "Bid list"
  claimedTxs :: "string list"
  senderBalances :: "string \<rightharpoonup> int64"

definition rejectBid :: "walkState \<Rightarrow> Bid \<Rightarrow> walkState" where
  "rejectBid st eb = st\<lparr>rejectedBids := rejectedBids st @ [eb\<lparr>bState := BidStateRejected\<rparr>]\<rparr>"

definition walkStep :: "lib \<Rightarrow> walkState \<Rightarrow> Bid \<Rightarrow> walkState" where
  "walkStep L st eb =
     (if bKind eb = BidKindTop \<and> winningBids st \<noteq> [] then rejectBid st eb
      else if list_ex (\<lambda>tx. HashTx L tx \<in> set (claimedTxs st)) (bTxs eb) then rejectBid st eb
      else
        (case debit (senderBalances st) (bPayments eb) of
           None \<Rightarrow> rejectBid st eb
         | Some senderBalancesCopy \<Rightarrow>
             st\<lparr>winningBids := winningBids st @ [eb],
                senderBalances := senderBalancesCopy,
                claimedTxs := claimedTxs st @ map (HashTx L) (bTxs eb)\<rparr>))"

fun walk :: "lib \<Rightarrow> walkState \<Rightarrow> Bid list \<Rightarrow> walkState" where
  "walk L st [] = st"
| "walk L st (eb # ebs) = walk L (walkStep L st eb) ebs"

text \<open>The mempool transactions that no winning bid and no earlier one of them claimed.\<close>

fun remainingLoop :: "lib \<Rightarrow> string list \<Rightarrow> bytes list \<Rightarrow> bytes list" where
  "remainingLoop L claimed [] = []"
| "remainingLoop L claimed (tx # txs) =
     (if HashTx L tx \<in> set claimed then remainingLoop L claimed txs
      else tx # remainingLoop L (claimed @ [HashTx L tx]) txs)"

definition computeOrder ::
  "lib \<Rightarrow> 'm chain \<Rightarrow> Auction \<Rightarrow> Bid list \<Rightarrow> bytes list \<Rightarrow>
   error + (Bid list \<times> Bid list \<times> bytes list)" where
  "computeOrder L c auction bidList mempoolTxs =
     (case evaluateAll L c auction bidList of
        Inl e \<Rightarrow> Inl e
      | Inr evaluatedBids \<Rightarrow>
          (let st = walk L
                 \<lparr>winningBids = [], rejectedBids = [], claimedTxs = [],
                  senderBalances = queryBalances c auction evaluatedBids\<rparr>
                 (sort_bids evaluatedBids)
           in Inr (winningBids st, rejectedBids st,
                   remainingLoop L (claimedTxs st) mempoolTxs)))"

section \<open>package block: selectTransactions\<close>

record txBundle =
  source :: string
  txs :: "bytes list"
  validatorPayment :: int64
  mekatekPayment :: int64

definition MaxInt64 :: int64 where
  "MaxInt64 = 9223372036854775807"

text \<open>
  The bytes and the gas of a bid: a transaction whose size or gas lookup fails adds to
  neither sum.
\<close>

fun bidSize :: "'m chain \<Rightarrow> bytes list \<Rightarrow> int64 \<times> int64" where
  "bidSize c [] = (0, 0)"
| "bidSize c (txb # rest) =
     (let (bidBytes, bidGas) = bidSize c rest
      in case getTxBytes c txb of
           Inl e \<Rightarrow> (bidBytes, bidGas)
         | Inr txBytes \<Rightarrow>
             (case getTxGas c txb of
                Inl e \<Rightarrow> (bidBytes, bidGas)
              | Inr txGas \<Rightarrow> (bidBytes + txBytes, bidGas + txGas)))"

record selection =
  bundles :: "txBundle list"
  acceptedBids :: "Bid list"
  rejectedWinners :: "Bid list"
  totalBytes :: int64
  totalGas :: int64

definition selectBid :: "lib \<Rightarrow> 'm chain \<Rightarrow> int64 \<Rightarrow> int64 \<Rightarrow> selection \<Rightarrow> Bid \<Rightarrow> selection" where
  "selectBid L c maxBytes maxGas sel eb =
     (let (bidBytes, bidGas) = bidSize c (bTxs eb);
          tooManyBytes = maxBytes <s totalBytes sel + bidBytes;
          tooMuchGas = maxGas <s totalGas sel + bidGas
      in if tooManyBytes \<or> tooMuchGas
         then sel\<lparr>rejectedWinners := rejectedWinners sel @ [eb\<lparr>bState := BidStateRejected\<rparr>]\<rparr>
         else sel\<lparr>acceptedBids := acceptedBids sel @ [eb\<lparr>bState := BidStateAccepted\<rparr>],
                 totalBytes := totalBytes sel + bidBytes,
                 totalGas := totalGas sel + bidGas,
                 bundles := bundles sel @
                   [\<lparr>source = ''bid '' @ uuid_String L (bID eb), txs = bTxs eb,
                     validatorPayment = bValidatorPayment eb,
                     mekatekPayment = bMekatekPayment eb\<rparr>]\<rparr>)"

text \<open>A mempool transaction whose size or gas lookup fails is left out of the block.\<close>

definition selectTx :: "'m chain \<Rightarrow> int64 \<Rightarrow> int64 \<Rightarrow> selection \<Rightarrow> bytes \<Rightarrow> selection" where
  "selectTx c maxBytes maxGas sel tx =
     (case getTxBytes c tx of
        Inl e \<Rightarrow> sel
      | Inr txBytes \<Rightarrow>
          (case getTxGas c tx of
             Inl e \<Rightarrow> sel
           | Inr txGas \<Rightarrow>
               (let tooManyBytes = maxBytes <s totalBytes sel + txBytes;
                    tooMuchGas = maxGas <s totalGas sel + txGas
                in if tooManyBytes \<or> tooMuchGas then sel
                   else sel\<lparr>totalBytes := totalBytes sel + txBytes,
                           totalGas := totalGas sel + txGas,
                           bundles := bundles sel @
                             [\<lparr>source = ''mempool'', txs = [tx],
                               validatorPayment = 0, mekatekPayment = 0\<rparr>]\<rparr>)))"

definition selectTransactions ::
  "lib \<Rightarrow> 'm chain \<Rightarrow> Bid list \<Rightarrow> bytes list \<Rightarrow> int64 \<Rightarrow> int64 \<Rightarrow> selection" where
  "selectTransactions L c winners mempool maxBytes maxGas =
     (let maxBytes1 = (if maxBytes = - 1 then MaxInt64 else maxBytes);
          maxGas1 = (if maxGas = - 1 then MaxInt64 else maxGas);
          sel0 = \<lparr>bundles = [], acceptedBids = [], rejectedWinners = [],
                  totalBytes = 0, totalGas = 0\<rparr>;
          sel1 = foldl (selectBid L c maxBytes1 maxGas1) sel0 winners
      in foldl (selectTx c maxBytes1 maxGas1) sel1 mempool)"

text \<open>The end of \<open>Build\<close>: the transactions of the bundles in order, and the payments.\<close>

definition blockTxsOf :: "txBundle list \<Rightarrow> bytes list" where
  "blockTxsOf bs = concat (map txs bs)"

definition validatorPaymentOf :: "txBundle list \<Rightarrow> int64" where
  "validatorPaymentOf bs = sum_list (map validatorPayment bs)"

section \<open>package block: CoreService\<close>

text \<open>
  Every endpoint takes the store and returns it with its result.  A wrapped error is the
  error it wraps.
\<close>

definition Auction_ep :: "'m chain \<Rightarrow> Store \<Rightarrow> env \<Rightarrow> int64 \<Rightarrow> (error + Auction) \<times> Store" where
  "Auction_ep c s E height =
     (case verifyAuction c height 10 s E of
        (Inl e, s1) \<Rightarrow> (Inl e, s1)
      | (Inr (a, v), s1) \<Rightarrow> (Inr a, s1))"

definition Bid_ep ::
  "lib \<Rightarrow> 'm chain \<Rightarrow> Store \<Rightarrow> env \<Rightarrow> int64 \<Rightarrow> string \<Rightarrow> bytes list \<Rightarrow> (error + Bid) \<times> Store" where
  "Bid_ep L c s E height kind txList =
     (case Auction_ep c s E height of
        (Inl e, s1) \<Rightarrow> (Inl e, s1)
      | (Inr auction, s1) \<Rightarrow>
          (case evaluateBid L c auction
                  \<lparr>bID = 0, bChainID = aChainID auction, bHeight = aHeight auction,
                   bKind = ParseBidKind L kind, bTxs = txList, bPriority = 0,
                   bMekatekPayment = 0, bValidatorPayment = 0, bPayments = [],
                   bState = BidStatePending, bCreatedAt = 0, bUpdatedAt = 0\<rparr> of
             Inl e \<Rightarrow> (Inl e, s1)
           | Inr bid \<Rightarrow>
               (case InsertBid s1 E bid of
                  Inl e \<Rightarrow> (Inl e, s1)
                | Inr (bid1, s2) \<Rightarrow> (Inr bid1, s2))))"

definition Apply_ep ::
  "lib \<Rightarrow> 'm chain \<Rightarrow> Store \<Rightarrow> env \<Rightarrow> string \<Rightarrow> string \<Rightarrow> (error + Challenge) \<times> Store" where
  "Apply_ep L c s E validatorAddr paymentAddr =
     (case ValidatePaymentAddress c paymentAddr of
        Some e \<Rightarrow> (Inl e, s)
      | None \<Rightarrow>
     (case LatestHeight c of
        Inl e \<Rightarrow> (Inl e, s)
      | Inr latestHeight \<Rightarrow>
     (case GetValidatorSet c latestHeight of
        Inl e \<Rightarrow> (Inl e, s)
      | Inr vs \<Rightarrow>
     (if vsHeight vs \<noteq> latestHeight then (Inl (ErrOther ''mismatch''), s)
      else
     (case vsSet vs validatorAddr of
        None \<Rightarrow> (Inl (ErrOther ''validator not in latest validator set''), s)
      | Some v \<Rightarrow>
          (case InsertChallenge L s E
                  \<lparr>chID = 0, chChainID = ID c, chValidatorAddress = cvAddress v,
                   chPubKeyBytes = cvPubKeyBytes v, chPubKeyType = cvPubKeyType v,
                   chPaymentAddress = paymentAddr, chChallenge = RandomBytes E 32,
                   chCreatedAt = 0\<rparr> of
             Inl e \<Rightarrow> (Inl e, s)
           | Inr (ch, s1) \<Rightarrow> (Inr ch, s1)))))))"

text \<open>
  \<open>Register\<close>.  Once the challenge is found, the deferred \<open>DeleteChallenge\<close> runs however
  the function returns; its own error is traced only.
\<close>

definition Register_ep ::
  "lib \<Rightarrow> 'm chain \<Rightarrow> Store \<Rightarrow> env \<Rightarrow> string \<Rightarrow> bytes \<Rightarrow> (error + Validator) \<times> Store" where
  "Register_ep L c s E challengeID signature =
     (case LatestHeight c of
        Inl e \<Rightarrow> (Inl e, s)
      | Inr latestHeight \<Rightarrow>
     (case GetValidatorSet c latestHeight of
        Inl e \<Rightarrow> (Inl e, s)
      | Inr validatorSet \<Rightarrow>
     (case SelectChallenge s challengeID of
        Inl e \<Rightarrow> (Inl e, s)
      | Inr challenge \<Rightarrow>
          (let (res, s1) =
                 (case VerifySignature c (chPubKeyType challenge) (chPubKeyBytes challenge)
                         (RegisterChallengeSignBytes L (chChainID challenge) (chChallenge challenge))
                         signature of
                    Some e \<Rightarrow> (Inl e, s)
                  | None \<Rightarrow>
                      (case vsSet validatorSet (chValidatorAddress challenge) of
                         None \<Rightarrow> (Inl (ErrOther ''validator not present in validator set''), s)
                       | Some validatorSetValidator \<Rightarrow>
                           (case UpsertValidator s E
                                   \<lparr>vChainID = chChainID challenge,
                                    vAddress = chValidatorAddress challenge,
                                    vMoniker = cvMoniker validatorSetValidator,
                                    vPubKeyBytes = chPubKeyBytes challenge,
                                    vPubKeyType = chPubKeyType challenge,
                                    vPaymentAddress = chPaymentAddress challenge,
                                    vCreatedAt = 0, vUpdatedAt = 0\<rparr> of
                              (validator, s2) \<Rightarrow> (Inr validator, s2))))
           in (res, snd (DeleteChallenge s1 (uuid_String L (chID challenge))))))))"

text \<open>
  What \<open>Build\<close> and \<open>BuildV1\<close> do with the claimed auction and its bids: order, select,
  store the states of the bids, flatten.  The payment string is \<open>validatorPayment\<close>
  printed before the denom; it is returned as the pair.
\<close>

definition buildBlock ::
  "lib \<Rightarrow> 'm chain \<Rightarrow> Store \<Rightarrow> env \<Rightarrow> Auction \<Rightarrow> Bid list \<Rightarrow> int64 \<Rightarrow> int64 \<Rightarrow> bytes list \<Rightarrow>
   (error + (bytes list \<times> int64 \<times> string)) \<times> Store" where
  "buildBlock L c s E auction allBids maxBytes maxGas txList =
     (case computeOrder L c auction allBids txList of
        Inl e \<Rightarrow> (Inl e, s)
      | Inr (winners, losingBids, remainingTxs) \<Rightarrow>
          (let sel = selectTransactions L c winners remainingTxs maxBytes maxGas;
               s1 = UpdateBids s E (acceptedBids sel @ rejectedWinners sel @ losingBids)
           in (Inr (blockTxsOf (bundles sel), validatorPaymentOf (bundles sel),
                    aPaymentDenom auction), s1)))"

definition Build_ep ::
  "lib \<Rightarrow> 'm chain \<Rightarrow> Store \<Rightarrow> env \<Rightarrow> int64 \<Rightarrow> string \<Rightarrow> int64 \<Rightarrow> int64 \<Rightarrow> bytes list \<Rightarrow> bytes \<Rightarrow>
   (error + (bytes list \<times> int64 \<times> string)) \<times> Store" where
  "Build_ep L c s E height validatorAddr maxBytes maxGas txList signature =
     (case verifyAuction c height 2 s E of
        (Inl e, s1) \<Rightarrow> (Inl e, s1)
      | (Inr (auction, proposer), s1) \<Rightarrow>
          (case VerifySignature c (vPubKeyType proposer) (vPubKeyBytes proposer)
                  (BuildBlockRequestSignBytes L (ID c) height validatorAddr maxBytes maxGas
                     (mekabuild_HashTxs L txList))
                  signature of
             Some e \<Rightarrow> (Inl e, s1)
           | None \<Rightarrow>
               (case UpsertAuction s1 E (auction\<lparr>aFinishedAt := time_Now E\<rparr>) of
                  (auction1, s2) \<Rightarrow>
                    (if aValidatorAddress auction1 \<noteq> vAddress proposer
                     then (Inl (ErrOther ''auction failed because proposer changed''), s2)
                     else buildBlock L c s2 E auction1 (ListBids s2 (ID c) height)
                            maxBytes maxGas txList))))"

text \<open>
  \<open>BuildV1\<close>; \<open>claimV1\<close> is the part of it after the window check.
\<close>

definition claimV1 ::
  "lib \<Rightarrow> 'm chain \<Rightarrow> Chain \<Rightarrow> ValidatorSet \<Rightarrow> Store \<Rightarrow> env \<Rightarrow> int64 \<Rightarrow> string \<Rightarrow> int64 \<Rightarrow>
   int64 \<Rightarrow> bytes list \<Rightarrow> bytes \<Rightarrow> (error + (bytes list \<times> int64 \<times> string)) \<times> Store" where
  "claimV1 L c ch vs s E buildHeight validatorAddr maxBytes maxGas txList signature =
     (case PredictProposer c vs buildHeight of
        Inl e \<Rightarrow> (Inl e, s)
      | Inr p \<Rightarrow>
     (if cvAddress p \<noteq> validatorAddr then (Inl (ErrOther ''wrong proposer''), s)
      else
     (case VerifySignature c (cvPubKeyType p) (cvPubKeyBytes p)
             (BuildBlockRequestSignBytes L (ID c) buildHeight validatorAddr maxBytes maxGas
                (mekabuild_HashTxs L txList))
             signature of
        Some e \<Rightarrow> (Inl e, s)
      | None \<Rightarrow>
          (let s1 = snd (UpsertValidator s E
                 \<lparr>vChainID = ID c, vAddress = cvAddress p, vMoniker = cvMoniker p,
                  vPubKeyBytes = cvPubKeyBytes p, vPubKeyType = cvPubKeyType p,
                  vPaymentAddress = cvPaymentAddress p, vCreatedAt = 0, vUpdatedAt = 0\<rparr>);
               found =
                 (case SelectAuction s1 (ID c) buildHeight of
                    Inr a \<Rightarrow> Inr (a, s1)
                  | Inl e \<Rightarrow>
                      (if e = ErrNotFound then
                         Inr (UpsertAuction s1 E
                           \<lparr>aChainID = ID c, aHeight = buildHeight,
                            aValidatorAddress = cvAddress p,
                            aValidatorAllocation = FixedAllocation,
                            aValidatorPaymentAddress = cvPaymentAddress p,
                            aMekatekPaymentAddress = cMekatekPaymentAddress ch,
                            aPaymentDenom = cPaymentDenom ch,
                            aRegisteredPower = registeredPowerOf vs (ListValidators s1 (ID c)),
                            aTotalPower = vsTotalPower vs,
                            aCreatedAt = 0, aFinishedAt = 0\<rparr>)
                       else Inl e))
           in case found of
                Inl e \<Rightarrow> (Inl e, s1)
              | Inr (a, s2) \<Rightarrow>
                  (if aFinishedAt a \<noteq> 0 then (Inl ErrAuctionFinished, s2)
                   else if cvAddress p \<noteq> aValidatorAddress a
                   then (Inl (ErrOther ''mismatched validators''), s2)
                   else
                     (case UpsertAuction s2 E (a\<lparr>aFinishedAt := time_Now E\<rparr>) of
                        (a1, s3) \<Rightarrow>
                          buildBlock L c s3 E a1 (ListBids s3 (ID c) buildHeight)
                            maxBytes maxGas txList))))))"

definition BuildV1_ep ::
  "lib \<Rightarrow> 'm chain \<Rightarrow> Store \<Rightarrow> env \<Rightarrow> int64 \<Rightarrow> string \<Rightarrow> int64 \<Rightarrow> int64 \<Rightarrow> bytes list \<Rightarrow> bytes \<Rightarrow>
   (error + (bytes list \<times> int64 \<times> string)) \<times> Store" where
  "BuildV1_ep L c s E buildHeight validatorAddr maxBytes maxGas txList signature =
     (case SelectChain s (ID c) of
        Inl e \<Rightarrow> (Inl e, s)
      | Inr ch \<Rightarrow>
     (case LatestHeight c of
        Inl e \<Rightarrow> (Inl e, s)
      | Inr latestHeight \<Rightarrow>
     (case GetValidatorSet c latestHeight of
        Inl e \<Rightarrow> (Inl e, s)
      | Inr vs \<Rightarrow>
     (if vsHeight vs \<noteq> latestHeight then (Inl (ErrOther ''mismatch''), s)
      else
        (let minHeight = latestHeight;
             maxHeight = latestHeight + 2
         in if buildHeight <s minHeight then (Inl ErrAuctionTooOld, s)
            else if maxHeight <s buildHeight then (Inl ErrAuctionTooNew, s)
            else claimV1 L c ch vs s E buildHeight validatorAddr maxBytes maxGas txList
                   signature)))))"


section \<open>Test doubles\<close>

text \<open>
  A library whose hash of one transaction is the transaction itself, and a chain in the
  manner of the repository's \<open>TestChain\<close>: fixed height, validator set and proposer, every
  signature good, every balance 100.  Its transactions are given by a table from bytes
  to decoded transactions, a message is the payment it makes, and a transaction encodes
  to the first bytes of the table that decode to it.
\<close>

definition test_lib :: lib where
  "test_lib =
     \<lparr>unicode_ToLower = (\<lambda>s. s), unicode_EqualFold = (\<lambda>s t. s = t),
      mekabuild_HashTxs = concat,
      RegisterChallengeSignBytes = (\<lambda>chainID challenge. challenge),
      BuildBlockRequestSignBytes = (\<lambda>chainID height validatorAddr maxBytes maxGas txsHash. txsHash),
      uuid_String = (\<lambda>u. hex_EncodeToString [ucast u])\<rparr>"

type_synonym test_msg = "string \<times> string \<times> int64"

definition table_chain ::
  "string \<Rightarrow> int64 \<Rightarrow> ValidatorSet \<Rightarrow> cValidator \<Rightarrow> (bytes \<times> test_msg Transaction) list \<Rightarrow>
   test_msg chain" where
  "table_chain chainID height vs proposer table =
     \<lparr>ID = chainID,
      ValidatePaymentAddress = (\<lambda>addr. None),
      VerifySignature = (\<lambda>pubKeyType pubKeyBytes msg sig. None),
      LatestHeight = Inr height,
      DecodeTransaction =
        (\<lambda>txb. case map_of table txb of
                  Some tx \<Rightarrow> Inr tx
                | None \<Rightarrow> Inl (ErrOther ''decode failed'')),
      EncodeTransaction =
        (\<lambda>tx. case find (\<lambda>entry. snd entry = tx) table of
                 Some entry \<Rightarrow> Inr (fst entry)
               | None \<Rightarrow> Inl (ErrOther ''encode failed'')),
      AccountBalance = (\<lambda>height addr denom. Inr 100),
      GetValidatorSet = (\<lambda>height. Inr vs),
      PredictProposer = (\<lambda>valset height. Inr proposer),
      GetPayment = (\<lambda>msg denom. Inr msg)\<rparr>"

definition test_proposer :: cValidator where
  "test_proposer =
     \<lparr>cvAddress = ''VAL1'', cvMoniker = ''val one'', cvPaymentAddress = ''valpay'',
      cvPubKeyType = ''secp256k1'', cvPubKeyBytes = [1, 2, 3], cvVotingPower = 1,
      cvProposerPriority = 0\<rparr>"

definition test_valset :: "int64 \<Rightarrow> ValidatorSet" where
  "test_valset height =
     \<lparr>vsHeight = height, vsValidators = [test_proposer],
      vsSet = [''VAL1'' \<mapsto> test_proposer], vsTotalPower = 1\<rparr>"

definition test_chain_row :: Chain where
  "test_chain_row =
     \<lparr>cID = ''zenith-1'', cNetwork = ''test'', cPaymentDenom = ''uzen'',
      cMekatekPaymentAddress = ''mekapay'', cTimeout = 0, cNodeURIs = [],
      cCreatedAt = 1, cUpdatedAt = 1\<rparr>"

definition test_validator :: Validator where
  "test_validator =
     \<lparr>vChainID = ''zenith-1'', vAddress = ''VAL1'', vMoniker = ''val one'',
      vPubKeyBytes = [1, 2, 3], vPubKeyType = ''secp256k1'', vPaymentAddress = ''valpay'',
      vCreatedAt = 1, vUpdatedAt = 1\<rparr>"

definition test_auction :: "int64 \<Rightarrow> time \<Rightarrow> Auction" where
  "test_auction height finishedAt =
     \<lparr>aChainID = ''zenith-1'', aHeight = height, aValidatorAddress = ''VAL1'',
      aValidatorAllocation = FixedAllocation, aValidatorPaymentAddress = ''valpay'',
      aMekatekPaymentAddress = ''mekapay'', aPaymentDenom = ''uzen'',
      aRegisteredPower = 1, aTotalPower = 1, aCreatedAt = 1, aFinishedAt = finishedAt\<rparr>"

text \<open>A store with the chain row and the registered proposer, and one with an auction too.\<close>

definition test_store :: Store where
  "test_store =
     NewStore\<lparr>chains := [''zenith-1'' \<mapsto> test_chain_row],
              validators := [((''zenith-1'', ''VAL1''), test_validator)]\<rparr>"

definition test_store_with :: "Auction \<Rightarrow> Store" where
  "test_store_with a = test_store\<lparr>auctions := [(aChainID a, aHeight a) \<mapsto> a]\<rparr>"

definition test_env :: env where
  "test_env = \<lparr>time_Now = 1700000000, uuid_NewV4 = Inr 7, RandomBytes = (\<lambda>n. replicate n 0)\<rparr>"

text \<open>A transaction of one payment, and a bid of the given transactions.\<close>

definition pay_tx :: "string \<Rightarrow> string \<Rightarrow> int64 \<Rightarrow> test_msg Transaction" where
  "pay_tx src dst amount = \<lparr>Messages = [(src, dst, amount)], ByteCount = Inr 100, GasAmount = Inr 10\<rparr>"

definition test_bid :: "uuid \<Rightarrow> BidKind \<Rightarrow> bytes list \<Rightarrow> Bid" where
  "test_bid i kind txList =
     \<lparr>bID = i, bChainID = ''zenith-1'', bHeight = 10, bKind = kind, bTxs = txList,
      bPriority = 0, bMekatekPayment = 0, bValidatorPayment = 0, bPayments = [],
      bState = BidStatePending, bCreatedAt = 0, bUpdatedAt = 0\<rparr>"

definition test_chain :: "int64 \<Rightarrow> (bytes \<times> test_msg Transaction) list \<Rightarrow> test_msg chain" where
  "test_chain height table = table_chain ''zenith-1'' height (test_valset height) test_proposer table"


section \<open>Properties of the caches\<close>

lemma drop_loop_nomatch:
  "(\<And>j. i \<le> j \<Longrightarrow> j < n \<Longrightarrow> arr ! j \<noteq> k) \<Longrightarrow> drop_loop k n i arr cur = Returns (take cur arr)"
proof (induction k n i arr cur rule: drop_loop.induct)
  case (1 k n i arr cur)
  show ?case
  proof (cases "n \<le> i")
    case True
    then show ?thesis by (subst drop_loop.simps) simp
  next
    case False
    then have ne: "arr ! i \<noteq> k" using 1(3)[of i] by simp
    have "drop_loop k n (i + 1) arr cur = Returns (take cur arr)"
      using 1(2)[OF False ne] 1(3) by simp
    then show ?thesis using False ne by (subst drop_loop.simps) simp
  qed
qed

lemma remove1_at:
  "i < length xs \<Longrightarrow> xs ! i = k \<Longrightarrow> k \<notin> set (take i xs) \<Longrightarrow> remove1 k xs = take i xs @ drop (Suc i) xs"
proof -
  assume a: "i < length xs" "xs ! i = k" "k \<notin> set (take i xs)"
  have "xs = take i xs @ k # drop (Suc i) xs" using a id_take_nth_drop by blast
  then have "remove1 k xs = remove1 k (take i xs @ k # drop (Suc i) xs)" by simp
  also have "\<dots> = take i xs @ remove1 k (k # drop (Suc i) xs)" using a(3) by (simp add: remove1_append)
  finally show ?thesis by simp
qed

lemma drop_loop_distinct:
  "distinct arr \<Longrightarrow> i \<le> length arr \<Longrightarrow> k \<notin> set (take i arr) \<Longrightarrow>
   drop_loop k (length arr) i arr (length arr) = Returns (remove1 k arr)"
proof (induction "length arr - i" arbitrary: i)
  case 0
  then have "i = length arr" by simp
  then show ?case using 0 by (subst drop_loop.simps) (simp add: remove1_idem)
next
  case (Suc m)
  then have lt: "i < length arr" by simp
  show ?case
  proof (cases "arr ! i = k")
    case True
    let ?n = "length arr"
    let ?arr' = "take i arr @ take (?n - (i + 1)) (drop (i + 1) arr) @ drop (?n - 1) arr"
    have len: "length ?arr' = ?n" using lt by simp
    have nomatch: "\<And>j. i + 1 \<le> j \<Longrightarrow> j < ?n \<Longrightarrow> ?arr' ! j \<noteq> k"
    proof -
      fix j assume j: "i + 1 \<le> j" "j < ?n"
      show "?arr' ! j \<noteq> k"
      proof (cases "j < ?n - 1")
        case True
        then have "?arr' ! j = arr ! (j + 1)" using j lt
          by (auto simp: nth_append)
        moreover have "arr ! (j + 1) \<noteq> arr ! i" using Suc.prems(1) j True lt
          by (simp add: nth_eq_iff_index_eq)
        ultimately show ?thesis using \<open>arr ! i = k\<close> by simp
      next
        case False
        then have jj: "j = ?n - 1" using j by simp
        then have "?arr' ! j = arr ! (?n - 1)" using j lt
          by (auto simp: nth_append)
        moreover have "arr ! (?n - 1) \<noteq> arr ! i" using Suc.prems(1) j jj lt
          by (simp add: nth_eq_iff_index_eq)
        ultimately show ?thesis using \<open>arr ! i = k\<close> jj by simp
      qed
    qed
    have "drop_loop k ?n (i + 1) ?arr' (?n - 1) = Returns (take (?n - 1) ?arr')"
      using nomatch by (rule drop_loop_nomatch)
    moreover have "take (?n - 1) ?arr' = take i arr @ drop (Suc i) arr" using lt by simp
    moreover have "remove1 k arr = take i arr @ drop (Suc i) arr"
      using remove1_at[OF lt True Suc.prems(3)] .
    ultimately show ?thesis using lt True by (subst drop_loop.simps) simp
  next
    case False
    have "k \<notin> set (take (Suc i) arr)" using Suc.prems(3) False lt
      by (simp add: take_Suc_conv_app_nth)
    moreover have "m = length arr - Suc i" using Suc.hyps(2) by simp
    ultimately have "drop_loop k (length arr) (Suc i) arr (length arr) = Returns (remove1 k arr)"
      using Suc.hyps(1)[of "Suc i"] Suc.prems(1) lt by simp
    then show ?thesis using lt False by (subst drop_loop.simps) simp
  qed
qed

lemma seq_drop_distinct:
  "distinct (seq_set s) \<Longrightarrow> seq_drop s k = Returns (s\<lparr>seq_set := remove1 k (seq_set s)\<rparr>)"
  using drop_loop_distinct[of "seq_set s" 0 k] by (simp add: seq_drop_def)

lemma keys_fold_delete:
  "map fst (fold AList.delete ks al) = filter (\<lambda>x. x \<notin> set ks) (map fst al)"
proof (induction ks arbitrary: al)
  case Nil
  then show ?case by simp
next
  case (Cons k ks)
  have "map fst (AList.delete k al) = filter (\<lambda>x. x \<noteq> k) (map fst al)"
    by (simp add: AList.delete_keys removeAll_filter_not_eq) (metis)
  then show ?case using Cons[of "AList.delete k al"] by (simp add: conj_commute)
qed

lemma set_fold_delete_subset: "set (fold AList.delete ks al) \<subseteq> set al"
proof (induction ks arbitrary: al)
  case Nil
  then show ?case by simp
next
  case (Cons k ks)
  have "set (AList.delete k al) \<subseteq> set al" by (auto simp: AList.delete_eq)
  then show ?case using Cons[of "AList.delete k al"] by auto
qed

lemma length_keys_eq:
  "distinct xs \<Longrightarrow> distinct ys \<Longrightarrow> set xs = set ys \<Longrightarrow> length xs = length ys"
  by (metis distinct_card)

lemma cond_inv_Len: "cond_inv c \<Longrightarrow> cond_Len c \<le> limit c"
proof -
  assume a: "cond_inv c"
  then have "length (map fst (cache c)) = length (seq_set (order c))"
    unfolding cond_inv_def by (intro length_keys_eq) auto
  then show ?thesis using a by (simp add: cond_inv_def cond_Len_def)
qed

lemma poke_line:
  assumes "distinct (seq_set s)"
  shows "distinct (remove1 k (seq_set s) @ [k])"
    and "set (remove1 k (seq_set s) @ [k]) = insert k (set (seq_set s))"
  using assms by auto

lemma cond_inv_struct: "cond_inv c \<Longrightarrow> cond_struct c"
  by (simp add: cond_inv_def cond_struct_def)

lemma set_update_subset: "set (AList.update k v al) \<subseteq> insert (k, v) (set al)"
  by (induction al) auto

lemma poke_struct:
  assumes "distinct (seq_set s)" and "poke s k = (kills, s')"
  shows "distinct (seq_set s')" and "seq_max s' = seq_max s"
    and "length (seq_set s') \<le> seq_max s"
    and "set (seq_set s') = insert k (set (seq_set s)) - set kills"
proof -
  define line where "line = remove1 k (seq_set s) @ [k]"
  define n where "n = nat (int (length line) - int (seq_max s))"
  have dl: "distinct line" using assms(1) by (auto simp: line_def)
  have sl: "set line = insert k (set (seq_set s))" using assms(1) by (auto simp: line_def)
  have res: "kills = take n line \<and> seq_set s' = drop n line \<and> seq_max s' = seq_max s"
  proof (cases "int (length line) - int (seq_max s) > 0")
    case True
    then show ?thesis using assms(2) unfolding poke_def Let_def line_def[symmetric] n_def
      by auto
  next
    case False
    then have "n = 0" by (simp add: n_def)
    then show ?thesis using assms(2) False unfolding poke_def Let_def line_def[symmetric]
      by auto
  qed
  show "distinct (seq_set s')" using res dl by simp
  show "seq_max s' = seq_max s" using res by simp
  show "length (seq_set s') \<le> seq_max s" using res by (simp add: n_def)
  have "set (take n line) \<inter> set (drop n line) = {}"
    using dl by (metis append_take_drop_id distinct_append)
  moreover have "set (take n line) \<union> set (drop n line) = set line"
    by (metis append_take_drop_id set_append)
  ultimately show "set (seq_set s') = insert k (set (seq_set s)) - set kills"
    using res sl by auto
qed

lemma cond_get_struct:
  assumes "cond_struct c" and "cond_get c k = (res, c1)"
  shows "cond_struct c1" and "limit c1 = limit c"
proof -
  obtain r c0 where c0: "(case map_of (cache c) k of
               Some item \<Rightarrow> ((item, True), c)
             | None \<Rightarrow>
                 (let item = length (items c)
                  in ((item, False),
                      c\<lparr>cache := AList.update k item (cache c),
                        items := items c @ [newCondItem]\<rparr>))) = (r, c0)"
    by (cases "map_of (cache c) k") (auto simp: Let_def)
  obtain kills s where p: "poke (order c0) k = (kills, s)" by (cases "poke (order c0) k")
  have c1: "c1 = c0\<lparr>order := s, cache := fold AList.delete kills (cache c0)\<rparr>"
    using assms(2) c0 p by (simp add: cond_get_def)
  have o0: "order c0 = order c" and l0: "limit c0 = limit c"
    using c0 by (auto split: option.splits simp: Let_def)
  have k0: "distinct (map fst (cache c0))" "set (map fst (cache c0)) = insert k (set (map fst (cache c)))"
  proof -
    show "distinct (map fst (cache c0))" using c0 assms(1)
      by (auto split: option.splits simp: Let_def cond_struct_def distinct_update)
    show "set (map fst (cache c0)) = insert k (set (map fst (cache c)))"
    proof (cases "map_of (cache c) k")
      case None
      then have "cache c0 = AList.update k (length (items c)) (cache c)"
        using c0 by (auto simp: Let_def)
      then show ?thesis by (simp add: dom_update)
    next
      case (Some a)
      then have "cache c0 = cache c" using c0 by auto
      moreover have "k \<in> fst ` set (cache c)" using Some
        by (metis map_of_SomeD fst_conv image_eqI)
      ultimately show ?thesis by auto
    qed
  qed
  have ds: "distinct (seq_set (order c))" using assms(1) by (simp add: cond_struct_def)
  note ps = poke_struct[OF _ p, unfolded o0, OF ds]
  have keys: "map fst (cache c1) = filter (\<lambda>x. x \<notin> set kills) (map fst (cache c0))"
    using c1 by (simp add: keys_fold_delete)
  show "limit c1 = limit c" using c1 l0 by simp
  show "cond_struct c1"
    unfolding cond_struct_def
  proof (intro conjI)
    show "distinct (map fst (cache c1))" using keys k0 by simp
    show "distinct (seq_set (order c1))" using c1 ps by simp
    show "set (map fst (cache c1)) = set (seq_set (order c1))"
      using keys k0 c1 ps assms(1) by (auto simp: cond_struct_def)
    show "length (seq_set (order c1)) \<le> limit c1"
      using c1 ps assms(1) l0 by (simp add: cond_struct_def)
    show "seq_max (order c1) = limit c1"
      using c1 ps assms(1) l0 by (simp add: cond_struct_def)
  qed
qed

lemma cond_get_items:
  assumes "cond_inv c" and "cond_get c k = ((item, valid), c1)"
  shows "valid \<Longrightarrow> items c1 = items c \<and> item < length (items c) \<and> ready (items c ! item)"
    and "\<not> valid \<Longrightarrow> items c1 = items c @ [newCondItem] \<and> item = length (items c)"
    and "\<And>p. p \<in> set (cache c1) \<Longrightarrow> p \<in> set (cache c) \<or> (\<not> valid \<and> p = (k, item))"
proof -
  obtain r c0 where c0: "(case map_of (cache c) k of
               Some item \<Rightarrow> ((item, True), c)
             | None \<Rightarrow>
                 (let item = length (items c)
                  in ((item, False),
                      c\<lparr>cache := AList.update k item (cache c),
                        items := items c @ [newCondItem]\<rparr>))) = (r, c0)"
    by (cases "map_of (cache c) k") (auto simp: Let_def)
  obtain kills s where p: "poke (order c0) k = (kills, s)" by (cases "poke (order c0) k")
  have c1: "c1 = c0\<lparr>order := s, cache := fold AList.delete kills (cache c0)\<rparr>" and r: "r = (item, valid)"
    using assms(2) c0 p by (simp_all add: cond_get_def)
  show "valid \<Longrightarrow> items c1 = items c \<and> item < length (items c) \<and> ready (items c ! item)"
    using c0 c1 r assms(1)
    by (auto split: option.splits simp: Let_def cond_inv_def dest!: map_of_SomeD)
  show "\<not> valid \<Longrightarrow> items c1 = items c @ [newCondItem] \<and> item = length (items c)"
    using c0 c1 r by (auto split: option.splits simp: Let_def)
  fix p assume "p \<in> set (cache c1)"
  then have "p \<in> set (cache c0)" using c1 set_fold_delete_subset by fastforce
  then show "p \<in> set (cache c) \<or> (\<not> valid \<and> p = (k, item))"
    using c0 r set_update_subset[of k "length (items c)" "cache c"]
    by (auto split: option.splits simp: Let_def)
qed

lemma cond_inv_intro:
  "cond_struct c \<Longrightarrow> (\<And>p. p \<in> set (cache c) \<Longrightarrow> snd p < length (items c) \<and> ready (items c ! snd p))
   \<Longrightarrow> cond_inv c"
  by (auto simp: cond_inv_def cond_struct_def)

lemma cond_inv_ready:
  "cond_inv c \<Longrightarrow> p \<in> set (cache c) \<Longrightarrow> snd p < length (items c) \<and> ready (items c ! snd p)"
  by (auto simp: cond_inv_def)

lemma item_set_ready: "ready (item_set x v e)"
  by (simp add: item_set_def)

lemma item_set_ready_id: "ready x \<Longrightarrow> item_set x v e = x"
  by (simp add: item_set_def)

lemma cond_del_struct:
  assumes "cond_struct c"
  shows "\<exists>c'. cond_del c k = Returns c' \<and> cond_struct c' \<and> limit c' = limit c \<and>
           length (items c') = length (items c) \<and>
           set (cache c') \<subseteq> set (cache c) \<and> k \<notin> fst ` set (cache c') \<and>
           (\<forall>i. i < length (items c) \<longrightarrow> ready (items c ! i) \<longrightarrow> items c' ! i = items c ! i)"
proof -
  define c1 where "c1 = (case map_of (cache c) k of
               Some item \<Rightarrow>
                 c\<lparr>items := (items c)
                     [item := item_set (items c ! item) None (Some (ErrOther ''deleted''))]\<rparr>
             | None \<Rightarrow> c)"
  have o1: "order c1 = order c" and ca1: "cache c1 = cache c" and l1: "limit c1 = limit c"
    and len1: "length (items c1) = length (items c)"
    by (auto simp: c1_def split: option.splits)
  have it1: "\<And>i. i < length (items c) \<Longrightarrow> ready (items c ! i) \<Longrightarrow> items c1 ! i = items c ! i"
  proof -
    fix i assume i: "i < length (items c)" "ready (items c ! i)"
    show "items c1 ! i = items c ! i"
    proof (cases "map_of (cache c) k")
      case None
      then show ?thesis by (simp add: c1_def)
    next
      case (Some x2)
      show ?thesis
      proof (cases "x2 = i")
        case True
        then show ?thesis using Some i by (simp add: c1_def item_set_ready_id)
      next
        case False
        then show ?thesis using Some by (simp add: c1_def)
      qed
    qed
  qed
  have ds: "distinct (seq_set (order c))" using assms by (simp add: cond_struct_def)
  define c' where "c' = c1\<lparr>cache := AList.delete k (cache c1), order := (order c1)\<lparr>seq_set := remove1 k (seq_set (order c1))\<rparr>\<rparr>"
  have r: "cond_del c k = Returns c'"
    unfolding cond_del_def c1_def[symmetric] Let_def c'_def
    using seq_drop_distinct[of "order c1" k] ds o1 by simp
  have keys: "map fst (cache c') = removeAll k (map fst (cache c))"
    by (simp add: c'_def ca1 delete_keys)
  have "cond_struct c'"
    unfolding cond_struct_def
  proof (intro conjI)
    show "distinct (map fst (cache c'))" using keys assms by (simp add: cond_struct_def distinct_removeAll)
    show "distinct (seq_set (order c'))" using ds by (simp add: c'_def o1)
    show "set (map fst (cache c')) = set (seq_set (order c'))"
      using keys assms ds by (auto simp: cond_struct_def c'_def o1)
    show "length (seq_set (order c')) \<le> limit c'"
      using assms by (auto simp: c'_def o1 l1 cond_struct_def length_remove1)
    show "seq_max (order c') = limit c'"
      using assms by (simp add: c'_def o1 l1 cond_struct_def)
  qed
  moreover have "set (cache c') \<subseteq> set (cache c)"
    by (auto simp: c'_def ca1 AList.delete_eq)
  moreover have "k \<notin> fst ` set (cache c')"
    by (simp add: c'_def delete_notin_dom)
  moreover have "limit c' = limit c" "length (items c') = length (items c)"
    by (simp_all add: c'_def l1 len1)
  moreover have "\<forall>i. i < length (items c) \<longrightarrow> ready (items c ! i) \<longrightarrow> items c' ! i = items c ! i"
    using it1 by (simp add: c'_def)
  ultimately show ?thesis using r by blast
qed

lemma cond_Get_inv:
  assumes "cond_inv c"
  shows "\<exists>r c'. cond_Get c k fill = Returns (r, c') \<and> cond_inv c' \<and> limit c' = limit c"
proof -
  obtain item valid c1 where g: "cond_get c k = ((item, valid), c1)"
    by (metis prod.exhaust)
  note st = cond_get_struct[OF cond_inv_struct[OF assms] g]
  note its = cond_get_items[OF assms g]
  show ?thesis
  proof (cases valid)
    case True
    then have "items c1 = items c" "item < length (items c)" "ready (items c ! item)"
      using its(1) by auto
    then have "cond_Get c k fill = Returns ((val (items c ! item), err (items c ! item)), c1)"
      using g True by (simp add: cond_Get_def item_get_def)
    moreover have "cond_inv c1"
    proof (rule cond_inv_intro[OF st(1)])
      fix p assume "p \<in> set (cache c1)"
      then have "p \<in> set (cache c)" using its(3) True by blast
      then show "snd p < length (items c1) \<and> ready (items c1 ! snd p)"
        using cond_inv_ready[OF assms] \<open>items c1 = items c\<close> by simp
    qed
    ultimately show ?thesis using st(2) by blast
  next
    case False
    then have i1: "items c1 = items c @ [newCondItem]" and it: "item = length (items c)"
      using its(2) by auto
    obtain v e where f: "fill k = (v, e)" by (cases "fill k")
    have old: "\<And>p. p \<in> set (cache c1) \<Longrightarrow> fst p \<noteq> k \<Longrightarrow>
                snd p < length (items c) \<and> ready (items c ! snd p)"
      using its(3) cond_inv_ready[OF assms] by fastforce
    have new: "\<And>p. p \<in> set (cache c1) \<Longrightarrow> snd p \<le> length (items c)"
      using its(3) cond_inv_ready[OF assms] it by fastforce
    show ?thesis
    proof (cases "e = None")
      case True
      define c' where "c' = c1\<lparr>items := (items c1)[item := item_set (items c1 ! item) v e]\<rparr>"
      have r: "cond_Get c k fill = Returns ((v, e), c')"
        using g False f True by (simp add: cond_Get_def c'_def)
      have "cond_struct c'" using st(1) by (simp add: cond_struct_def c'_def)
      moreover have "\<And>p. p \<in> set (cache c') \<Longrightarrow> snd p < length (items c') \<and> ready (items c' ! snd p)"
      proof -
        fix p assume "p \<in> set (cache c')"
        then have p: "p \<in> set (cache c1)" by (simp add: c'_def)
        show "snd p < length (items c') \<and> ready (items c' ! snd p)"
        proof (cases "snd p = item")
          case True
          then show ?thesis by (simp add: c'_def i1 it item_set_ready)
        next
          case False
          then have "snd p < length (items c)" using new[OF p] it by simp
          moreover have "ready (items c ! snd p)"
            using its(3)[OF p] cond_inv_ready[OF assms, of p] False \<open>\<not> valid\<close> by auto
          ultimately show ?thesis using False by (simp add: c'_def i1 it nth_append)
        qed
      qed
      ultimately have "cond_inv c'" by (rule cond_inv_intro)
      then show ?thesis using r st(2) by (auto simp: c'_def)
    next
      case ne: False
      obtain c2 where d: "cond_del c1 k = Returns c2" and s2: "cond_struct c2"
        and l2: "limit c2 = limit c1" and len2: "length (items c2) = length (items c1)"
        and sub: "set (cache c2) \<subseteq> set (cache c1)" and nk: "k \<notin> fst ` set (cache c2)"
        and keep: "\<forall>i. i < length (items c1) \<longrightarrow> ready (items c1 ! i) \<longrightarrow> items c2 ! i = items c1 ! i"
        using cond_del_struct[OF st(1), of k] by blast
      define c' where "c' = c2\<lparr>items := (items c2)[item := item_set (items c2 ! item) v e]\<rparr>"
      have r: "cond_Get c k fill = Returns ((v, e), c')"
        using g False f ne d by (simp add: cond_Get_def c'_def)
      have "cond_struct c'" using s2 by (simp add: cond_struct_def c'_def)
      moreover have "\<And>p. p \<in> set (cache c') \<Longrightarrow> snd p < length (items c') \<and> ready (items c' ! snd p)"
      proof -
        fix p assume "p \<in> set (cache c')"
        then have p2: "p \<in> set (cache c2)" by (simp add: c'_def)
        then have p: "p \<in> set (cache c1)" using sub by blast
        have "fst p \<noteq> k" using nk p2 by force
        then have o: "snd p < length (items c)" "ready (items c ! snd p)" using old[OF p] by auto
        then have "items c2 ! snd p = items c1 ! snd p" using keep
          by (simp add: i1 nth_append)
        then show "snd p < length (items c') \<and> ready (items c' ! snd p)"
          using o by (simp add: c'_def len2 i1 it nth_append)
      qed
      ultimately have "cond_inv c'" by (rule cond_inv_intro)
      then show ?thesis using r st(2) l2 by (auto simp: c'_def)
    qed
  qed
qed

lemma cond_run_inv:
  "cond_inv c \<Longrightarrow> \<exists>c'. cond_run c ops = Returns c' \<and> cond_inv c' \<and> limit c' = limit c"
proof (induction ops arbitrary: c)
  case Nil
  then show ?case by simp
next
  case (Cons op ops)
  show ?case
  proof (cases op)
    case (OpGet k fill)
    obtain r c1 where g: "cond_Get c k fill = Returns (r, c1)" "cond_inv c1" "limit c1 = limit c"
      using cond_Get_inv[OF Cons.prems] by blast
    then show ?thesis using Cons.IH[of c1] OpGet by auto
  next
    case OpLen
    then show ?thesis using Cons by simp
  qed
qed

lemma newCondCache_inv: "cond_inv (newCondCache n)"
  by (simp add: cond_inv_def newCondCache_def)

lemma cond_Len_bounded:
  "\<exists>c'. cond_run (newCondCache n) ops = Returns c' \<and> cond_Len c' \<le> n"
proof -
  obtain c' where "cond_run (newCondCache n) ops = Returns c'" "cond_inv c'" "limit c' = limit (newCondCache n :: ('a, 'b) condCache)"
    using cond_run_inv[OF newCondCache_inv, of n ops] by blast
  then show ?thesis using cond_inv_Len[of c'] by (auto simp: newCondCache_def)
qed

lemma ring_inv_slot:
  "ring_inv c \<Longrightarrow> (k, pos) \<in> set (index c) \<Longrightarrow>
   pos < length (ring c) \<and> (\<exists>it. ring c ! pos = Some it \<and> it < length (ritems c) \<and> rkey (ritems c ! it) = k)"
  by (fastforce simp: ring_inv_def)

lemma ring_inv_inj:
  assumes "ring_inv c" "(k, pos) \<in> set (index c)" "(k', pos) \<in> set (index c)"
  shows "k = k'"
  using ring_inv_slot[OF assms(1,2)] ring_inv_slot[OF assms(1,3)] by auto

lemma ring_inv_Len:
  assumes "ring_inv c"
  shows "ring_Len c \<le> length (ring c)"
proof -
  have inj: "inj_on snd (set (index c))"
  proof (rule inj_onI)
    fix p q assume pq: "p \<in> set (index c)" "q \<in> set (index c)" "snd p = snd q"
    then have "fst p = fst q"
      using ring_inv_inj[OF assms, of "fst p" "snd p" "fst q"] by (metis prod.collapse)
    then show "p = q" using pq(3) by (simp add: prod_eq_iff)
  qed
  have d: "distinct (index c)" using assms by (auto simp: ring_inv_def distinct_map)
  then have "distinct (map snd (index c))" using inj by (simp add: distinct_map)
  moreover have "set (map snd (index c)) \<subseteq> {0..<length (ring c)}"
    using assms by (auto simp: ring_inv_def)
  ultimately have "length (map snd (index c)) \<le> card {0..<length (ring c)}"
    by (metis card_mono distinct_card finite_atLeastLessThan)
  then show ?thesis by (simp add: ring_Len_def)
qed

lemma set_delete_subset: "set (AList.delete k al) \<subseteq> set al"
  by (auto simp: AList.delete_eq)

lemma set_delete_notkey: "(k', v) \<in> set (AList.delete k al) \<Longrightarrow> k' \<noteq> k"
  by (auto simp: AList.delete_eq)

lemma ring_item_inv:
  assumes "ring_inv c"
  shows "\<exists>it c'. ring_item c k = Returns (Some it, c') \<and> ring_inv c' \<and>
           length (ring c') = length (ring c) \<and> it < length (ritems c') \<and>
           rkey (ritems c' ! it) = k"
proof (cases "map_of (index c) k")
  case (Some pos)
  then have "(k, pos) \<in> set (index c)" by (rule map_of_SomeD)
  then obtain it where "pos < length (ring c)" "ring c ! pos = Some it" "it < length (ritems c)"
      "rkey (ritems c ! it) = k"
    using ring_inv_slot[OF assms] by blast
  then show ?thesis using Some assms by (simp add: ring_item_def)
next
  case None
  have h: "head c < length (ring c)" using assms by (simp add: ring_inv_def)
  define idx where "idx = (case ring c ! head c of
                           Some old \<Rightarrow> AList.delete (rkey (ritems c ! old)) (index c)
                         | None \<Rightarrow> index c)"
  define it where "it = length (ritems c)"
  define c' where "c' = c\<lparr>index := AList.update k (head c) idx,
                     ring := (ring c)[head c := Some it],
                     head := (head c + 1) mod length (ring c),
                     ritems := ritems c @ [\<lparr>rkey = k, rvalue = None, rerr = None, rok = False\<rparr>]\<rparr>"
  have r: "ring_item c k = Returns (Some it, c')"
    using None h unfolding ring_item_def idx_def it_def c'_def Let_def by simp
  have sub: "set idx \<subseteq> set (index c)"
    using set_delete_subset by (fastforce simp: idx_def split: option.splits)
  have didx: "distinct (map fst idx)"
    using assms by (auto simp: idx_def ring_inv_def distinct_delete split: option.splits)
  have nohead: "\<And>k' . (k', head c) \<notin> set idx"
  proof
    fix k' assume a: "(k', head c) \<in> set idx"
    then have "(k', head c) \<in> set (index c)" using sub by blast
    then obtain old where o: "ring c ! head c = Some old" "rkey (ritems c ! old) = k'"
      using ring_inv_slot[OF assms] by blast
    then have "idx = AList.delete k' (index c)" by (simp add: idx_def)
    then show False using a set_delete_notkey by fastforce
  qed
  have "ring_inv c'"
    unfolding ring_inv_def
  proof (intro conjI)
    show "distinct (map fst (index c'))" using didx by (simp add: c'_def distinct_update)
    have "0 < length (ring c)" using h by (cases "ring c") simp_all
    then show "head c' < length (ring c')" by (simp add: c'_def)
    show "\<forall>p \<in> set (index c'). snd p < length (ring c') \<and>
        (\<exists>it. ring c' ! snd p = Some it \<and> it < length (ritems c') \<and> rkey (ritems c' ! it) = fst p)"
    proof
    fix p assume "p \<in> set (index c')"
    then have "p = (k, head c) \<or> p \<in> set idx"
      using set_update_subset[of k "head c" idx] by (auto simp: c'_def)
    then show "snd p < length (ring c') \<and>
        (\<exists>it. ring c' ! snd p = Some it \<and> it < length (ritems c') \<and> rkey (ritems c' ! it) = fst p)"
    proof
      assume "p = (k, head c)"
      then show ?thesis using h by (simp add: c'_def it_def)
    next
      assume p: "p \<in> set idx"
      then have pi: "(fst p, snd p) \<in> set (index c)" using sub by auto
      obtain it' where i': "snd p < length (ring c)" "ring c ! snd p = Some it'"
          "it' < length (ritems c)" "rkey (ritems c ! it') = fst p"
        using ring_inv_slot[OF assms pi] by blast
      have "snd p \<noteq> head c" using nohead[of "fst p"] p by (metis prod.collapse)
      then show ?thesis using i' by (simp add: c'_def nth_append)
    qed
    qed
  qed
  moreover have "length (ring c') = length (ring c)" by (simp add: c'_def)
  moreover have "it < length (ritems c')" "rkey (ritems c' ! it) = k"
    by (simp_all add: c'_def it_def)
  ultimately show ?thesis using r by blast
qed

lemma ring_del_inv:
  assumes "ring_inv c"
  shows "\<exists>c'. ring_del c k = Returns c' \<and> ring_inv c' \<and> length (ring c') = length (ring c)"
proof (cases "map_of (index c) k")
  case None
  then show ?thesis using assms by (simp add: ring_del_def)
next
  case (Some pos)
  then have kp: "(k, pos) \<in> set (index c)" by (rule map_of_SomeD)
  then have pl: "pos < length (ring c)" using ring_inv_slot[OF assms] by blast
  define c' where "c' = c\<lparr>ring := (ring c)[pos := None], index := AList.delete k (index c)\<rparr>"
  have r: "ring_del c k = Returns c'" using Some pl by (simp add: ring_del_def c'_def)
  have "ring_inv c'"
    unfolding ring_inv_def
  proof (intro conjI)
    show "distinct (map fst (index c'))" using assms by (simp add: c'_def ring_inv_def distinct_delete)
    show "head c' < length (ring c')" using assms by (simp add: c'_def ring_inv_def)
    show "\<forall>p \<in> set (index c'). snd p < length (ring c') \<and>
        (\<exists>it. ring c' ! snd p = Some it \<and> it < length (ritems c') \<and> rkey (ritems c' ! it) = fst p)"
    proof
    fix p assume p: "p \<in> set (index c')"
    then have pi: "(fst p, snd p) \<in> set (index c)" and ne: "fst p \<noteq> k"
      using set_delete_subset[of k "index c"] set_delete_notkey[of "fst p" "snd p" k "index c"]
      by (auto simp: c'_def)
    have "snd p \<noteq> pos" using ring_inv_inj[OF assms pi] kp ne by auto
    then show "snd p < length (ring c') \<and>
        (\<exists>it. ring c' ! snd p = Some it \<and> it < length (ritems c') \<and> rkey (ritems c' ! it) = fst p)"
      using ring_inv_slot[OF assms pi] by (simp add: c'_def)
    qed
  qed
  then show ?thesis using r by (auto simp: c'_def)
qed

lemma ring_inv_ritems_update:
  assumes "ring_inv c" "it < length (ritems c)"
  shows "ring_inv (c\<lparr>ritems := (ritems c)[it := (ritems c ! it)\<lparr>rvalue := v, rerr := e, rok := True\<rparr>]\<rparr>)"
  unfolding ring_inv_def
proof (intro conjI)
  let ?c = "c\<lparr>ritems := (ritems c)[it := (ritems c ! it)\<lparr>rvalue := v, rerr := e, rok := True\<rparr>]\<rparr>"
  show "distinct (map fst (index ?c))" using assms by (simp add: ring_inv_def)
  show "head ?c < length (ring ?c)" using assms by (simp add: ring_inv_def)
  show "\<forall>p \<in> set (index ?c). snd p < length (ring ?c) \<and>
        (\<exists>it. ring ?c ! snd p = Some it \<and> it < length (ritems ?c) \<and> rkey (ritems ?c ! it) = fst p)"
  proof
  fix p assume "p \<in> set (index ?c)"
  then have pi: "(fst p, snd p) \<in> set (index c)" by simp
  obtain it' where i': "snd p < length (ring c)" "ring c ! snd p = Some it'"
          "it' < length (ritems c)" "rkey (ritems c ! it') = fst p"
    using ring_inv_slot[OF assms(1) pi] by blast
  have "rkey (ritems ?c ! it') = fst p" using i' by (cases "it' = it") simp_all
  then show "snd p < length (ring ?c) \<and>
        (\<exists>it. ring ?c ! snd p = Some it \<and> it < length (ritems ?c) \<and> rkey (ritems ?c ! it) = fst p)"
    using i' by simp
  qed
qed

lemma ring_Get_inv:
  assumes "ring_inv c"
  shows "\<exists>r c'. ring_Get c k fill = Returns (r, c') \<and> ring_inv c' \<and> length (ring c') = length (ring c)"
proof -
  obtain it c1 where i: "ring_item c k = Returns (Some it, c1)" "ring_inv c1"
      "length (ring c1) = length (ring c)" "it < length (ritems c1)"
    using ring_item_inv[OF assms, of k] by blast
  show ?thesis
  proof (cases "rok (ritems c1 ! it)")
    case True
    then show ?thesis using i by (simp add: ring_Get_def Let_def)
  next
    case False
    obtain v e where f: "fill k = (v, e)" by (cases "fill k")
    define c2 where "c2 = c1\<lparr>ritems := (ritems c1)[it := (ritems c1 ! it)\<lparr>rvalue := v, rerr := e, rok := True\<rparr>]\<rparr>"
    have inv2: "ring_inv c2" unfolding c2_def using i(2,4) by (rule ring_inv_ritems_update)
    have l2: "length (ring c2) = length (ring c)" using i(3) by (simp add: c2_def)
    show ?thesis
    proof (cases "e = None")
      case True
      then have "ring_Get c k fill = Returns ((v, e), c2)"
        using i(1) False f by (simp add: ring_Get_def c2_def Let_def)
      then show ?thesis using inv2 l2 by blast
    next
      case ne: False
      obtain c3 where d: "ring_del c2 k = Returns c3" "ring_inv c3" "length (ring c3) = length (ring c2)"
        using ring_del_inv[OF inv2, of k] by blast
      then have "ring_Get c k fill = Returns ((v, e), c3)"
        using i(1) False f ne by (simp add: ring_Get_def c2_def Let_def)
      then show ?thesis using d l2 by auto
    qed
  qed
qed

lemma ring_run_inv:
  "ring_inv c \<Longrightarrow> \<exists>c'. ring_run c ops = Returns c' \<and> ring_inv c' \<and> length (ring c') = length (ring c)"
proof (induction ops arbitrary: c)
  case Nil
  then show ?case by simp
next
  case (Cons op ops)
  show ?case
  proof (cases op)
    case (OpGet k fill)
    obtain r c1 where g: "ring_Get c k fill = Returns (r, c1)" "ring_inv c1" "length (ring c1) = length (ring c)"
      using ring_Get_inv[OF Cons.prems] by blast
    then show ?thesis using Cons.IH[of c1] OpGet by auto
  next
    case OpLen
    then show ?thesis using Cons by simp
  qed
qed

lemma newRingCache_inv: "0 < n \<Longrightarrow> ring_inv (newRingCache n)"
  by (simp add: ring_inv_def newRingCache_def)

lemma ring_run_zero:
  "ring_run (newRingCache 0) ops = Returns (newRingCache 0) \<or> ring_run (newRingCache 0) ops = Panics"
proof (induction ops)
  case Nil
  then show ?case by simp
next
  case (Cons op ops)
  show ?case
  proof (cases op)
    case (OpGet k fill)
    then show ?thesis by (simp add: ring_Get_def ring_item_def newRingCache_def)
  next
    case OpLen
    then show ?thesis using Cons by simp
  qed
qed

lemma ring_Len_bounded:
  "(\<exists>c'. ring_run (newRingCache n) ops = Returns c' \<and> ring_Len c' \<le> n) \<or>
   (n = 0 \<and> ring_run (newRingCache n) ops = Panics)"
proof (cases "n = 0")
  case True
  then show ?thesis using ring_run_zero[of ops] by (auto simp: ring_Len_def newRingCache_def)
next
  case False
  then have "ring_inv (newRingCache n :: ('a, 'b) ringCache)" by (simp add: newRingCache_inv)
  then obtain c' where "ring_run (newRingCache n) ops = Returns c'" "ring_inv c'"
      "length (ring c') = length (ring (newRingCache n :: ('a, 'b) ringCache))"
    using ring_run_inv by blast
  then show ?thesis using ring_inv_Len[of c'] by (auto simp: newRingCache_def)
qed

lemma cond_run_reach_inv: "cond_run (newCondCache n) ops = Returns c \<Longrightarrow> cond_inv c \<and> limit c = n"
  using cond_run_inv[OF newCondCache_inv, of n ops] by (auto simp: newCondCache_def)

lemma ring_run_reach_inv:
  assumes "ring_run (newRingCache n) ops = Returns (c :: ('k, 'v) ringCache)" "0 < n"
  shows "ring_inv c \<and> length (ring c) = n"
  using ring_run_inv[OF newRingCache_inv[OF assms(2)], of ops] assms(1) by (auto simp: newRingCache_def)

lemma update_fresh: "map_of al k = None \<Longrightarrow> AList.update k v al = al @ [(k, v)]"
  by (induction al) (auto split: if_splits)

lemma delete_keys_remove1:
  "distinct (map fst al) \<Longrightarrow> map fst (AList.delete k al) = remove1 k (map fst al)"
  by (simp add: delete_keys distinct_remove1_removeAll)

lemma cond_get_evicts:
  assumes inv: "cond_inv c" and miss: "map_of (cache c) k = None"
    and full: "cond_Len c = limit c" and pos: "0 < limit c"
  shows "seq_set (order (snd (cond_get c k))) = tl (seq_set (order c)) @ [k] \<and>
         map fst (cache (snd (cond_get c k))) = remove1 (hd (seq_set (order c))) (map fst (cache c)) @ [k]"
proof -
  let ?xs = "seq_set (order c)"
  have st: "distinct (map fst (cache c))" "distinct ?xs" "set (map fst (cache c)) = set ?xs"
      "seq_max (order c) = limit c"
    using inv by (auto simp: cond_inv_def)
  have len: "length ?xs = limit c"
    using length_keys_eq[OF st(1) st(2) st(3)] full by (simp add: cond_Len_def)
  have knot: "k \<notin> set ?xs" using miss st(3) by (metis map_of_eq_None_iff set_map)
  have ne: "?xs \<noteq> []" using len pos by auto
  have line: "remove1 k ?xs @ [k] = ?xs @ [k]" using knot by (simp add: remove1_idem)
  have d: "nat (int (length (?xs @ [k])) - int (seq_max (order c))) = 1"
    using len st(4) by simp
  have pk: "poke (order c) k = ([hd ?xs], (order c)\<lparr>seq_set := tl ?xs @ [k]\<rparr>)"
    unfolding poke_def Let_def line using d len st(4) ne
    by (cases ?xs) auto
  have upd: "AList.update k (length (items c)) (cache c) = cache c @ [(k, length (items c))]"
    using miss by (rule update_fresh)
  have hk: "hd ?xs \<noteq> k" using knot ne by (metis hd_in_set)
  have g: "snd (cond_get c k) = c\<lparr>cache := AList.delete (hd ?xs) (cache c @ [(k, length (items c))]),
        items := items c @ [newCondItem], order := (order c)\<lparr>seq_set := tl ?xs @ [k]\<rparr>\<rparr>"
    using miss pk upd by (simp add: cond_get_def Let_def)
  have "map fst (AList.delete (hd ?xs) (cache c @ [(k, length (items c))])) =
        remove1 (hd ?xs) (map fst (cache c)) @ [k]"
    using hk st(1) by (simp add: delete_keys distinct_remove1_removeAll)
  then show ?thesis using g by simp
qed

lemma ring_item_evicts:
  assumes "ring_inv c" "map_of (index c) k = None" "ring c ! head c = Some old"
  shows "ring_item c k = Returns (Some (length (ritems c)),
           c\<lparr>index := AList.update k (head c) (AList.delete (rkey (ritems c ! old)) (index c)),
             ring := (ring c)[head c := Some (length (ritems c))],
             head := (head c + 1) mod length (ring c),
             ritems := ritems c @ [\<lparr>rkey = k, rvalue = None, rerr = None, rok = False\<rparr>]\<rparr>)"
  using assms by (simp add: ring_item_def ring_inv_def Let_def)

text \<open>
  Claim C7, amended.  After every sequence of \<open>Get\<close> and \<open>Len\<close> calls on a cache built
  with capacity \<open>n\<close>, \<open>Len\<close> is at most \<open>n\<close>: a \<open>condCache\<close> always returns, a \<open>ringCache\<close>
  returns too unless its capacity is 0, when its first \<open>Get\<close> panics.  A new key entering a
  full \<open>condCache\<close> drives out the key at the front of the line, the least recently used
  one, and goes to the back.  A new key entering a \<open>ringCache\<close> takes the slot at \<open>head\<close>,
  and the key of the item in that slot leaves the index, whenever it was last used.
\<close>

theorem C7_len_bounded_and_eviction:
  "(\<exists>c'. cond_run (newCondCache n) ops = Returns c' \<and> cond_Len c' \<le> n) \<and>
   ((\<exists>r'. ring_run (newRingCache n) rops = Returns r' \<and> ring_Len r' \<le> n) \<or>
    (n = 0 \<and> ring_run (newRingCache n) rops = Panics)) \<and>
   (cond_run (newCondCache n) ops = Returns c \<and> map_of (cache c) k = None \<and>
    cond_Len c = n \<and> 0 < n \<longrightarrow>
      seq_set (order (snd (cond_get c k))) = tl (seq_set (order c)) @ [k] \<and>
      map fst (cache (snd (cond_get c k))) =
        remove1 (hd (seq_set (order c))) (map fst (cache c)) @ [k]) \<and>
   (ring_run (newRingCache n) rops = Returns r \<and> 0 < n \<and> map_of (index r) k' = None \<and>
    ring r ! head r = Some old \<longrightarrow>
      (\<exists>r'. ring_item r k' = Returns (Some (length (ritems r)), r') \<and>
            index r' = AList.update k' (head r) (AList.delete (rkey (ritems r ! old)) (index r))))"
proof (intro conjI impI)
  show "\<exists>c'. cond_run (newCondCache n) ops = Returns c' \<and> cond_Len c' \<le> n"
    by (rule cond_Len_bounded)
  show "(\<exists>r'. ring_run (newRingCache n) rops = Returns r' \<and> ring_Len r' \<le> n) \<or>
    (n = 0 \<and> ring_run (newRingCache n) rops = Panics)"
    by (rule ring_Len_bounded)
next
  assume a: "cond_run (newCondCache n) ops = Returns c \<and> map_of (cache c) k = None \<and>
    cond_Len c = n \<and> 0 < n"
  then have inv: "cond_inv c" "limit c = n" using cond_run_reach_inv[of n ops c] by auto
  have e: "seq_set (order (snd (cond_get c k))) = tl (seq_set (order c)) @ [k] \<and>
      map fst (cache (snd (cond_get c k))) =
        remove1 (hd (seq_set (order c))) (map fst (cache c)) @ [k]"
    using cond_get_evicts[OF inv(1), of k] a inv(2) by simp
  show "seq_set (order (snd (cond_get c k))) = tl (seq_set (order c)) @ [k]"
    using e by simp
  show "map fst (cache (snd (cond_get c k))) =
        remove1 (hd (seq_set (order c))) (map fst (cache c)) @ [k]"
    using e by simp
next
  assume a: "ring_run (newRingCache n) rops = Returns r \<and> 0 < n \<and> map_of (index r) k' = None \<and>
    ring r ! head r = Some old"
  then have "ring_inv r" using ring_run_reach_inv[of n rops r] by simp
  then show "\<exists>r'. ring_item r k' = Returns (Some (length (ritems r)), r') \<and>
            index r' = AList.update k' (head r) (AList.delete (rkey (ritems r ! old)) (index r))"
    using ring_item_evicts[of r k' old] a by simp
qed

theorem C7_witness:
  "cond_run (newCondCache 2)
     [OpGet (1::nat) (fill_value (10::nat)), OpGet 2 (fill_value 20), OpGet 1 (fill_value 10)] =
     Returns \<lparr>limit = 2, cache = [(1, 0), (2, 1)], order = \<lparr>seq_set = [2, 1], seq_max = 2\<rparr>,
       items = [\<lparr>val = Some 10, err = None, ready = True\<rparr>,
                \<lparr>val = Some 20, err = None, ready = True\<rparr>]\<rparr> \<and>
   seq_set (order (snd (cond_get
     \<lparr>limit = 2, cache = [(1::nat, 0), (2, 1)], order = \<lparr>seq_set = [2, 1], seq_max = 2\<rparr>,
       items = [\<lparr>val = Some (10::nat), err = None, ready = True\<rparr>,
                \<lparr>val = Some 20, err = None, ready = True\<rparr>]\<rparr> 3))) = [1, 3] \<and>
   ring_run (newRingCache 2)
     [OpGet (1::nat) (fill_value (10::nat)), OpGet 2 (fill_value 20), OpGet 1 (fill_value 10)] =
     Returns \<lparr>index = [(1, 0), (2, 1)], ring = [Some 0, Some 1], head = 0,
       ritems = [\<lparr>rkey = 1, rvalue = Some 10, rerr = None, rok = True\<rparr>,
                 \<lparr>rkey = 2, rvalue = Some 20, rerr = None, rok = True\<rparr>]\<rparr> \<and>
   (\<exists>r'. ring_item
     \<lparr>index = [(1::nat, 0), (2, 1)], ring = [Some 0, Some 1], head = 0,
       ritems = [\<lparr>rkey = 1, rvalue = Some (10::nat), rerr = None, rok = True\<rparr>,
                 \<lparr>rkey = 2, rvalue = Some 20, rerr = None, rok = True\<rparr>]\<rparr> 3 = Returns (Some 2, r') \<and>
     index r' = [(2, 1), (3, 0)])"
proof -
  let ?ops = "[OpGet (1::nat) (fill_value (10::nat)), OpGet 2 (fill_value 20), OpGet 1 (fill_value 10)]"
  let ?c = "\<lparr>limit = 2, cache = [(1::nat, 0), (2, 1)], order = \<lparr>seq_set = [2, 1], seq_max = 2\<rparr>,
       items = [\<lparr>val = Some (10::nat), err = None, ready = True\<rparr>,
                \<lparr>val = Some 20, err = None, ready = True\<rparr>]\<rparr>"
  let ?r = "\<lparr>index = [(1::nat, 0), (2, 1)], ring = [Some 0, Some 1], head = 0,
       ritems = [\<lparr>rkey = 1, rvalue = Some (10::nat), rerr = None, rok = True\<rparr>,
                 \<lparr>rkey = 2, rvalue = Some 20, rerr = None, rok = True\<rparr>]\<rparr>"
  have h1: "cond_run (newCondCache 2) ?ops = Returns ?c" by code_simp
  have h2: "map_of (cache ?c) 3 = None \<and> cond_Len ?c = 2 \<and> (0::nat) < 2"
    by (simp add: cond_Len_def)
  have h3: "ring_run (newRingCache 2) ?ops = Returns ?r" by code_simp
  have h4: "(0::nat) < 2 \<and> map_of (index ?r) 3 = None \<and> ring ?r ! head ?r = Some 0" by simp
  note t = C7_len_bounded_and_eviction[of 2 ?ops ?ops ?c 3 ?r 3 0]
  from t h1 h2 have "seq_set (order (snd (cond_get ?c 3))) = tl (seq_set (order ?c)) @ [3]"
    by blast
  then have g1: "seq_set (order (snd (cond_get ?c 3))) = [1, 3]" by simp
  from t h3 h4 have "\<exists>r'. ring_item ?r 3 = Returns (Some (length (ritems ?r)), r') \<and>
            index r' = AList.update 3 (head ?r) (AList.delete (rkey (ritems ?r ! 0)) (index ?r))"
    by blast
  then have g2: "\<exists>r'. ring_item ?r 3 = Returns (Some 2, r') \<and> index r' = [(2, 1), (3, 0)]"
    by (simp add: AList.delete_eq eval_nat_numeral)
  show ?thesis using h1 g1 h3 g2 by blast
qed

text \<open>
  Claim C7 as stated fails for the \<open>ringCache\<close>: with capacity 2, after \<open>Get 1\<close>, \<open>Get 2\<close>
  and \<open>Get 1\<close> again the least recently used key is 2, yet \<open>Get 3\<close> drives out key 1,
  the most recently used one.  The \<open>condCache\<close> drives out key 2 on the same calls.
\<close>

theorem C7_counterexample:
  "indexed_keys (ring_run (newRingCache 2)
     [OpGet (1::nat) (fill_value (10::nat)), OpGet 2 (fill_value 20),
      OpGet 1 (fill_value 10), OpGet 3 (fill_value 30)]) = Returns [2, 3] \<and>
   cached_keys (cond_run (newCondCache 2)
     [OpGet (1::nat) (fill_value (10::nat)), OpGet 2 (fill_value 20),
      OpGet 1 (fill_value 10), OpGet 3 (fill_value 30)]) = Returns [1, 3]"
  by code_simp

section \<open>The height window\<close>


lemma sint_add_10: 
  assumes "sint (L :: int64) + 10 < 2 ^ 63" 
  shows "sint (L + 10) = sint L + 10"
proof -
  have lo: "- (2 ^ 63) \<le> sint L" using sint_ge[of L] by simp
  have "sint (L + 10) = signed_take_bit 63 (sint L + sint (10 :: int64))"
    by (simp add: sint_word_ariths)
  also have "\<dots> = signed_take_bit 63 (sint L + 10)" by simp
  also have "\<dots> = sint L + 10"
    using assms lo by (intro signed_take_bit_int_eq_self) auto
  finally show ?thesis .
qed

lemma sint_add_2: 
  assumes "sint (L :: int64) + 2 < 2 ^ 63" 
  shows "sint (L + 2) = sint L + 2"
proof -
  have lo: "- (2 ^ 63) \<le> sint L" using sint_ge[of L] by simp
  have "sint (L + 2) = signed_take_bit 63 (sint L + sint (2 :: int64))"
    by (simp add: sint_word_ariths)
  also have "\<dots> = signed_take_bit 63 (sint L + 2)" by simp
  also have "\<dots> = sint L + 2"
    using assms lo by (intro signed_take_bit_int_eq_self) auto
  finally show ?thesis .
qed

lemma too_new_10: "sint (L :: int64) + 10 < sint (h :: int64) \<Longrightarrow> L + 10 <s h"
proof -
  assume a: "sint L + 10 < sint h"
  have "sint h < 2 ^ 63" using sint_lt[of h] by simp
  then have "sint (L + 10) = sint L + 10" using a by (intro sint_add_10) simp
  then show ?thesis using a by (simp add: word_sless_alt)
qed

lemma too_new_2: "sint (L :: int64) + 2 < sint (h :: int64) \<Longrightarrow> L + 2 <s h"
proof -
  assume a: "sint L + 2 < sint h"
  have "sint h < 2 ^ 63" using sint_lt[of h] by simp
  then have "sint (L + 2) = sint L + 2" using a by (intro sint_add_2) simp
  then show ?thesis using a by (simp add: word_sless_alt)
qed

lemma verifyAuction_window:
  assumes "SelectChain s (ID c) = Inr ch" "LatestHeight c = Inr L"
    "GetValidatorSet c L = Inr vs" "vsHeight vs = L"
  shows "verifyAuction c h off s E =
           (if h <s L then (Inl ErrAuctionTooOld, s)
            else if L + off <s h then (Inl ErrAuctionTooNew, s)
            else verifyProposer c ch vs h s E)"
  using assms by (simp add: verifyAuction_def Let_def)

lemma BuildV1_window:
  assumes "SelectChain s (ID c) = Inr ch" "LatestHeight c = Inr L"
    "GetValidatorSet c L = Inr vs" "vsHeight vs = L"
  shows "BuildV1_ep Lb c s E h va mb mg txl sg =
           (if h <s L then (Inl ErrAuctionTooOld, s)
            else if L + 2 <s h then (Inl ErrAuctionTooNew, s)
            else claimV1 Lb c ch vs s E h va mb mg txl sg)"
  using assms by (simp add: BuildV1_ep_def Let_def)


text \<open>
  Claim C5.  In a request whose chain row, latest height \<open>L\<close> and validator set at \<open>L\<close>
  are found: a height below \<open>L\<close> fails with \<open>ErrAuctionTooOld\<close> in all four endpoints; a
  height above \<open>L + 10\<close> fails with \<open>ErrAuctionTooNew\<close> in \<open>Auction\<close> and \<open>Bid\<close>, a
  height above \<open>L + 2\<close> in \<open>Build\<close> and \<open>BuildV1\<close>; a height from \<open>L\<close> to \<open>L + offset\<close>
  passes the window check: what the request does is what the code after the check does
  (\<open>L + offset\<close> within \<open>int64\<close>).
\<close>

theorem C5_height_window:
  assumes "SelectChain s (ID c) = Inr ch" and "LatestHeight c = Inr L"
    and "GetValidatorSet c L = Inr vs" and "vsHeight vs = L"
  shows
    "(sint h < sint L \<longrightarrow>
        fst (Auction_ep c s E h) = Inl ErrAuctionTooOld \<and>
        fst (Bid_ep Lb c s E h kind txl) = Inl ErrAuctionTooOld \<and>
        fst (Build_ep Lb c s E h va mb mg txl sg) = Inl ErrAuctionTooOld \<and>
        fst (BuildV1_ep Lb c s E h va mb mg txl sg) = Inl ErrAuctionTooOld) \<and>
     (sint L + 10 < sint h \<longrightarrow>
        fst (Auction_ep c s E h) = Inl ErrAuctionTooNew \<and>
        fst (Bid_ep Lb c s E h kind txl) = Inl ErrAuctionTooNew) \<and>
     (sint L + 2 < sint h \<longrightarrow>
        fst (Build_ep Lb c s E h va mb mg txl sg) = Inl ErrAuctionTooNew \<and>
        fst (BuildV1_ep Lb c s E h va mb mg txl sg) = Inl ErrAuctionTooNew) \<and>
     (sint L \<le> sint h \<and> sint h \<le> sint L + 10 \<and> sint L + 10 < 2 ^ 63 \<longrightarrow>
        verifyAuction c h 10 s E = verifyProposer c ch vs h s E) \<and>
     (sint L \<le> sint h \<and> sint h \<le> sint L + 2 \<and> sint L + 2 < 2 ^ 63 \<longrightarrow>
        verifyAuction c h 2 s E = verifyProposer c ch vs h s E \<and>
        BuildV1_ep Lb c s E h va mb mg txl sg = claimV1 Lb c ch vs s E h va mb mg txl sg)"
proof (intro conjI impI)
  note w = verifyAuction_window[OF assms] and w1 = BuildV1_window[OF assms]
  {
    assume "sint h < sint L"
    then have lt: "h <s L" by (simp add: word_sless_alt)
    show "fst (Auction_ep c s E h) = Inl ErrAuctionTooOld"
      using lt by (simp add: Auction_ep_def w)
    show "fst (Bid_ep Lb c s E h kind txl) = Inl ErrAuctionTooOld"
      using lt by (simp add: Bid_ep_def Auction_ep_def w)
    show "fst (Build_ep Lb c s E h va mb mg txl sg) = Inl ErrAuctionTooOld"
      using lt by (simp add: Build_ep_def w)
    show "fst (BuildV1_ep Lb c s E h va mb mg txl sg) = Inl ErrAuctionTooOld"
      using lt by (simp add: w1)
  }
  {
    assume a: "sint L + 10 < sint h"
    then have new: "L + 10 <s h" by (rule too_new_10)
    have old: "\<not> h <s L" using a by (simp add: word_sless_alt)
    show "fst (Auction_ep c s E h) = Inl ErrAuctionTooNew"
      using new old by (simp add: Auction_ep_def w)
    show "fst (Bid_ep Lb c s E h kind txl) = Inl ErrAuctionTooNew"
      using new old by (simp add: Bid_ep_def Auction_ep_def w)
  }
  {
    assume a: "sint L + 2 < sint h"
    then have new: "L + 2 <s h" by (rule too_new_2)
    have old: "\<not> h <s L" using a by (simp add: word_sless_alt)
    show "fst (Build_ep Lb c s E h va mb mg txl sg) = Inl ErrAuctionTooNew"
      using new old by (simp add: Build_ep_def w)
    show "fst (BuildV1_ep Lb c s E h va mb mg txl sg) = Inl ErrAuctionTooNew"
      using new old by (simp add: w1)
  }
  {
    assume a: "sint L \<le> sint h \<and> sint h \<le> sint L + 10 \<and> sint L + 10 < 2 ^ 63"
    then have "sint (L + 10) = sint L + 10" by (intro sint_add_10) simp
    then have "\<not> L + 10 <s h" "\<not> h <s L" using a by (simp_all add: word_sless_alt)
    then show "verifyAuction c h 10 s E = verifyProposer c ch vs h s E" by (simp add: w)
  }
  {
    assume a: "sint L \<le> sint h \<and> sint h \<le> sint L + 2 \<and> sint L + 2 < 2 ^ 63"
    then have "sint (L + 2) = sint L + 2" by (intro sint_add_2) simp
    then have n: "\<not> L + 2 <s h" "\<not> h <s L" using a by (simp_all add: word_sless_alt)
    show "verifyAuction c h 2 s E = verifyProposer c ch vs h s E" using n by (simp add: w)
    show "BuildV1_ep Lb c s E h va mb mg txl sg = claimV1 Lb c ch vs s E h va mb mg txl sg"
      using n by (simp add: w1)
  }
qed


theorem C5_witness:
  "SelectChain test_store (ID (test_chain 10 [])) = Inr test_chain_row \<and>
   LatestHeight (test_chain 10 []) = Inr 10 \<and>
   GetValidatorSet (test_chain 10 []) 10 = Inr (test_valset 10) \<and>
   vsHeight (test_valset 10) = 10 \<and>
   sint (7 :: int64) < sint (10 :: int64) \<and>
   fst (Auction_ep (test_chain 10 []) test_store test_env 7) = Inl ErrAuctionTooOld \<and>
   fst (Bid_ep test_lib (test_chain 10 []) test_store test_env 7 ''top'' []) = Inl ErrAuctionTooOld \<and>
   fst (Build_ep test_lib (test_chain 10 []) test_store test_env 7 ''VAL1'' (- 1) (- 1) [] []) =
     Inl ErrAuctionTooOld \<and>
   fst (BuildV1_ep test_lib (test_chain 10 []) test_store test_env 7 ''VAL1'' (- 1) (- 1) [] []) =
     Inl ErrAuctionTooOld \<and>
   sint (10 :: int64) + 10 < sint (25 :: int64) \<and>
   fst (Auction_ep (test_chain 10 []) test_store test_env 25) = Inl ErrAuctionTooNew \<and>
   fst (Bid_ep test_lib (test_chain 10 []) test_store test_env 25 ''top'' []) = Inl ErrAuctionTooNew \<and>
   fst (Build_ep test_lib (test_chain 10 []) test_store test_env 25 ''VAL1'' (- 1) (- 1) [] []) =
     Inl ErrAuctionTooNew \<and>
   fst (BuildV1_ep test_lib (test_chain 10 []) test_store test_env 25 ''VAL1'' (- 1) (- 1) [] []) =
     Inl ErrAuctionTooNew \<and>
   sint (10 :: int64) \<le> sint (11 :: int64) \<and> sint (11 :: int64) \<le> sint (10 :: int64) + 2 \<and>
   verifyAuction (test_chain 10 []) 11 10 test_store test_env =
     verifyProposer (test_chain 10 []) test_chain_row (test_valset 10) 11 test_store test_env \<and>
   verifyAuction (test_chain 10 []) 11 2 test_store test_env =
     verifyProposer (test_chain 10 []) test_chain_row (test_valset 10) 11 test_store test_env \<and>
   BuildV1_ep test_lib (test_chain 10 []) test_store test_env 11 ''VAL1'' (- 1) (- 1) [] [] =
     claimV1 test_lib (test_chain 10 []) test_chain_row (test_valset 10) test_store test_env
       11 ''VAL1'' (- 1) (- 1) [] []"
proof -
  have h: "SelectChain test_store (ID (test_chain 10 [])) = Inr test_chain_row"
    "LatestHeight (test_chain 10 []) = Inr 10"
    "GetValidatorSet (test_chain 10 []) 10 = Inr (test_valset 10)"
    "vsHeight (test_valset 10) = 10"
    by (simp_all add: test_chain_def table_chain_def SelectChain_def test_store_def NewStore_def
        test_valset_def)
  have a: "sint (7 :: int64) < sint (10 :: int64)" "sint (10 :: int64) + 10 < sint (25 :: int64)"
    "sint (10 :: int64) + 2 < sint (25 :: int64)"
    "sint (10 :: int64) \<le> sint (11 :: int64) \<and> sint (11 :: int64) \<le> sint (10 :: int64) + 10 \<and>
     sint (10 :: int64) + 10 < 2 ^ 63"
    "sint (10 :: int64) \<le> sint (11 :: int64) \<and> sint (11 :: int64) \<le> sint (10 :: int64) + 2 \<and>
     sint (10 :: int64) + 2 < 2 ^ 63"
    by simp_all
  note t7 = C5_height_window[OF h, of 7 test_env test_lib "''top''" "[]" "''VAL1''" "- 1" "- 1" "[]"]
  note t25 = C5_height_window[OF h, of 25 test_env test_lib "''top''" "[]" "''VAL1''" "- 1" "- 1" "[]"]
  note t11 = C5_height_window[OF h, of 11 test_env test_lib "''top''" "[]" "''VAL1''" "- 1" "- 1" "[]"]
  note r7 = t7[THEN conjunct1, THEN mp, OF a(1)]
  note r25a = t25[THEN conjunct2, THEN conjunct1, THEN mp, OF a(2)]
  note r25b = t25[THEN conjunct2, THEN conjunct2, THEN conjunct1, THEN mp, OF a(3)]
  note r11a = t11[THEN conjunct2, THEN conjunct2, THEN conjunct2, THEN conjunct1, THEN mp, OF a(4)]
  note r11b = t11[THEN conjunct2, THEN conjunct2, THEN conjunct2, THEN conjunct2, THEN mp, OF a(5)]
  have b: "sint (10 :: int64) \<le> sint (11 :: int64)" "sint (11 :: int64) \<le> sint (10 :: int64) + 2"
    by simp_all
  show ?thesis
    by (intro conjI h a(1) a(2) b r7[THEN conjunct1] r7[THEN conjunct2, THEN conjunct1]
        r7[THEN conjunct2, THEN conjunct2, THEN conjunct1]
        r7[THEN conjunct2, THEN conjunct2, THEN conjunct2]
        r25a[THEN conjunct1] r25a[THEN conjunct2] r25b[THEN conjunct1] r25b[THEN conjunct2]
        r11a r11b[THEN conjunct1] r11b[THEN conjunct2])
qed

section \<open>Finished auctions\<close>


lemma finished_UpsertAuction:
  assumes "finished s k h" and "aFinishedAt a \<noteq> 0 \<or> auctions s (aChainID a, aHeight a) = None"
  shows "finished (snd (UpsertAuction s E a)) k h"
  using assms
  by (auto simp: finished_def UpsertAuction_def Let_def split: option.splits)

lemma auctions_UpdateBids [simp]: "auctions (UpdateBids s E bs) = auctions s"
  by (induction bs arbitrary: s) (simp_all add: Let_def)

lemma auctions_UpsertValidator [simp]: "auctions (snd (UpsertValidator s E v)) = auctions s"
  by (simp add: UpsertValidator_def Let_def split: option.splits)

lemma finished_cong: "auctions s' = auctions s \<Longrightarrow> finished s' k h = finished s k h"
  by (simp add: finished_def)

lemma auctions_buildBlock [simp]:
  "auctions (snd (buildBlock L c s E a bs mb mg txl)) = auctions s"
  by (simp add: buildBlock_def Let_def split: sum.splits prod.splits)

lemma SelectAuction_NotFound: "SelectAuction s cid h = Inl e \<Longrightarrow> e = ErrNotFound \<and> auctions s (cid, h) = None"
  by (simp add: SelectAuction_def split: option.splits)

lemma SelectAuction_found: "SelectAuction s cid h = Inr a \<Longrightarrow> auctions s (cid, h) = Some a"
  by (simp add: SelectAuction_def split: option.splits)

lemma verifyProposer_finished:
  assumes "finished s k h'"
  shows "finished (snd (verifyProposer c ch vs h s E)) k h'"
proof (cases "PredictProposer c vs h")
  case (Inl e)
  then show ?thesis using assms by (simp add: verifyProposer_def)
next
  case (Inr p)
  show ?thesis
  proof (cases "SelectValidator s (ID c) (cvAddress p)")
    case (Inl e)
    then show ?thesis using assms Inr by (simp add: verifyProposer_def)
  next
    case v: (Inr v)
    show ?thesis
    proof (cases "SelectAuction s (ID c) h")
      case (Inr a)
      then show ?thesis using assms \<open>PredictProposer c vs h = Inr p\<close> v
        by (simp add: verifyProposer_def Let_def)
    next
      case (Inl e)
      then have n: "e = ErrNotFound" "auctions s (ID c, h) = None"
        using SelectAuction_NotFound by blast+
      let ?a = "\<lparr>aChainID = ID c, aHeight = h,
                            aValidatorAddress = vAddress v,
                            aValidatorAllocation = FixedAllocation,
                            aValidatorPaymentAddress = vPaymentAddress v,
                            aMekatekPaymentAddress = cMekatekPaymentAddress ch,
                            aPaymentDenom = cPaymentDenom ch,
                            aRegisteredPower = registeredPowerOf vs (ListValidators s (ID c)),
                            aTotalPower = vsTotalPower vs,
                            aCreatedAt = 0, aFinishedAt = 0\<rparr>"
      have f: "finished (snd (UpsertAuction s E ?a)) k h'"
        using assms n by (intro finished_UpsertAuction) simp_all
      obtain a1 s1 where u: "UpsertAuction s E ?a = (a1, s1)" by (cases "UpsertAuction s E ?a")
      then have "snd (verifyProposer c ch vs h s E) = s1"
        using Inl n \<open>PredictProposer c vs h = Inr p\<close> v
        by (simp add: verifyProposer_def Let_def)
      then show ?thesis using f u by simp
    qed
  qed
qed

lemma verifyAuction_finished:
  assumes "finished s k h'"
  shows "finished (snd (verifyAuction c h off s E)) k h'"
  using assms
  by (simp add: verifyAuction_def Let_def verifyProposer_finished split: sum.splits)

lemma Auction_ep_snd: "snd (Auction_ep c s E h) = snd (verifyAuction c h 10 s E)"
  by (simp add: Auction_ep_def split: prod.splits sum.splits)

lemma auctions_InsertBid: "InsertBid s E b = Inr (b1, s1) \<Longrightarrow> auctions s1 = auctions s"
  by (auto simp: InsertBid_def Let_def split: sum.splits)

lemma Bid_ep_auctions: "auctions (snd (Bid_ep L c s E h kind txl)) = auctions (snd (Auction_ep c s E h))"
  by (auto simp: Bid_ep_def split: prod.splits sum.splits dest: auctions_InsertBid)

lemma Auction_ep_finished:
  "finished s k h' \<Longrightarrow> finished (snd (Auction_ep c s E h)) k h'"
  by (simp add: Auction_ep_snd verifyAuction_finished)

lemma Bid_ep_finished:
  "finished s k h' \<Longrightarrow> finished (snd (Bid_ep L c s E h kind txl)) k h'"
  using Auction_ep_finished[of s k h' c E h] finished_cong[OF Bid_ep_auctions] by blast

lemma Build_ep_finished:
  assumes "finished s k h'" "time_Now E \<noteq> 0"
  shows "finished (snd (Build_ep L c s E h va mb mg txl sg)) k h'"
proof -
  obtain r s1 where v: "verifyAuction c h 2 s E = (r, s1)" by (cases "verifyAuction c h 2 s E")
  have f1: "finished s1 k h'" using verifyAuction_finished[OF assms(1), of c h 2 E] v by simp
  show ?thesis
  proof (cases r)
    case (Inl e)
    then show ?thesis using v f1 by (simp add: Build_ep_def)
  next
    case (Inr av)
    obtain a pv where av: "av = (a, pv)" by (cases av)
    show ?thesis
    proof (cases "VerifySignature c (vPubKeyType pv) (vPubKeyBytes pv)
                  (BuildBlockRequestSignBytes L (ID c) h va mb mg (mekabuild_HashTxs L txl)) sg")
      case (Some e)
      then show ?thesis using v f1 Inr av by (simp add: Build_ep_def)
    next
      case None
      obtain a1 s2 where u: "UpsertAuction s1 E (a\<lparr>aFinishedAt := time_Now E\<rparr>) = (a1, s2)"
        by (cases "UpsertAuction s1 E (a\<lparr>aFinishedAt := time_Now E\<rparr>)")
      have f2: "finished s2 k h'"
        using finished_UpsertAuction[OF f1, of "a\<lparr>aFinishedAt := time_Now E\<rparr>" E] u assms(2) by simp
      have "finished (snd (buildBlock L c s2 E a1 (ListBids s2 (ID c) h) mb mg txl)) k h'"
        using f2 by (simp add: finished_cong[OF auctions_buildBlock])
      then show ?thesis using v Inr av None u f2 by (simp add: Build_ep_def)
    qed
  qed
qed



lemma finished_UpsertValidator: "finished (snd (UpsertValidator s E v)) k h = finished s k h"
  by (rule finished_cong) simp

lemma claimV1_finished:
  assumes "finished s k h'" "time_Now E \<noteq> 0"
  shows "finished (snd (claimV1 L c ch vs s E h va mb mg txl sg)) k h'"
proof (cases "PredictProposer c vs h")
  case (Inl e)
  then show ?thesis using assms by (simp add: claimV1_def)
next
  case (Inr p)
  show ?thesis
  proof (cases "cvAddress p \<noteq> va \<or> VerifySignature c (cvPubKeyType p) (cvPubKeyBytes p)
             (BuildBlockRequestSignBytes L (ID c) h va mb mg (mekabuild_HashTxs L txl)) sg \<noteq> None")
    case True
    then show ?thesis using assms Inr by (auto simp: claimV1_def)
  next
    case False
    define v where "v = \<lparr>vChainID = ID c, vAddress = cvAddress p, vMoniker = cvMoniker p,
                  vPubKeyBytes = cvPubKeyBytes p, vPubKeyType = cvPubKeyType p,
                  vPaymentAddress = cvPaymentAddress p, vCreatedAt = 0, vUpdatedAt = 0\<rparr>"
    define s1 where "s1 = snd (UpsertValidator s E v)"
    have f1: "finished s1 k h'" using assms(1) by (simp add: s1_def finished_UpsertValidator)
    define na where "na = \<lparr>aChainID = ID c, aHeight = h,
                            aValidatorAddress = cvAddress p,
                            aValidatorAllocation = FixedAllocation,
                            aValidatorPaymentAddress = cvPaymentAddress p,
                            aMekatekPaymentAddress = cMekatekPaymentAddress ch,
                            aPaymentDenom = cPaymentDenom ch,
                            aRegisteredPower = registeredPowerOf vs (ListValidators s1 (ID c)),
                            aTotalPower = vsTotalPower vs,
                            aCreatedAt = 0, aFinishedAt = 0\<rparr>"
    define found where "found = (case SelectAuction s1 (ID c) h of
                    Inr a \<Rightarrow> Inr (a, s1)
                  | Inl e \<Rightarrow> (if e = ErrNotFound then Inr (UpsertAuction s1 E na) else Inl e))"
    define rest where "rest = (case found of
                Inl e \<Rightarrow> (Inl e, s1)
              | Inr (a, s2) \<Rightarrow>
                  (if aFinishedAt a \<noteq> 0 then (Inl ErrAuctionFinished, s2)
                   else if cvAddress p \<noteq> aValidatorAddress a
                   then (Inl (ErrOther ''mismatched validators''), s2)
                   else
                     (case UpsertAuction s2 E (a\<lparr>aFinishedAt := time_Now E\<rparr>) of
                        (a1, s3) \<Rightarrow>
                          buildBlock L c s3 E a1 (ListBids s3 (ID c) h) mb mg txl)))"
    have eq: "claimV1 L c ch vs s E h va mb mg txl sg = rest"
      using Inr False unfolding claimV1_def rest_def found_def na_def s1_def v_def Let_def
      by auto
    have "finished (snd rest) k h'"
    proof (cases found)
      case (Inl e)
      then show ?thesis using f1 by (simp add: rest_def)
    next
      case (Inr as)
      obtain a s2 where as: "as = (a, s2)" by (cases as)
      have f2: "finished s2 k h'"
      proof (cases "SelectAuction s1 (ID c) h")
        case (Inr a')
        then show ?thesis using \<open>found = Inr as\<close> as f1 by (simp add: found_def)
      next
        case (Inl e)
        then have n: "e = ErrNotFound" "auctions s1 (ID c, h) = None"
          using SelectAuction_NotFound by blast+
        then have "UpsertAuction s1 E na = (a, s2)"
          using Inl \<open>found = Inr as\<close> as by (simp add: found_def)
        moreover have "finished (snd (UpsertAuction s1 E na)) k h'"
          using f1 n by (intro finished_UpsertAuction) (simp_all add: na_def)
        ultimately show ?thesis by simp
      qed
      show ?thesis
      proof (cases "aFinishedAt a \<noteq> 0 \<or> cvAddress p \<noteq> aValidatorAddress a")
        case True
        then show ?thesis using Inr as f2 by (auto simp: rest_def)
      next
        case False
        obtain a1 s3 where u: "UpsertAuction s2 E (a\<lparr>aFinishedAt := time_Now E\<rparr>) = (a1, s3)"
          by (cases "UpsertAuction s2 E (a\<lparr>aFinishedAt := time_Now E\<rparr>)")
        have f3: "finished s3 k h'"
          using finished_UpsertAuction[OF f2, of "a\<lparr>aFinishedAt := time_Now E\<rparr>" E] u assms(2) by simp
        have "finished (snd (buildBlock L c s3 E a1 (ListBids s3 (ID c) h) mb mg txl)) k h'"
          using f3 by (simp add: finished_cong[OF auctions_buildBlock])
        then show ?thesis using Inr as False u by (simp add: rest_def)
      qed
    qed
    then show ?thesis using eq by simp
  qed
qed

lemma BuildV1_ep_finished:
  assumes "finished s k h'" "time_Now E \<noteq> 0"
  shows "finished (snd (BuildV1_ep L c s E h va mb mg txl sg)) k h'"
  using assms
  by (simp add: BuildV1_ep_def Let_def claimV1_finished split: sum.splits)

text \<open>A finished auction fails the requests.\<close>

lemma verifyProposer_fails:
  assumes "finished s (ID c) h"
  shows "isl (fst (verifyProposer c ch vs h s E))"
    and "PredictProposer c vs h = Inr p \<Longrightarrow> SelectValidator s (ID c) (cvAddress p) = Inr v \<Longrightarrow>
         fst (verifyProposer c ch vs h s E) = Inl ErrAuctionFinished"
proof -
  obtain a where a: "auctions s (ID c, h) = Some a" "aFinishedAt a \<noteq> 0"
    using assms by (auto simp: finished_def split: option.splits)
  then have sa: "SelectAuction s (ID c) h = Inr a" by (simp add: SelectAuction_def)
  show "isl (fst (verifyProposer c ch vs h s E))"
    using sa a by (simp add: verifyProposer_def Let_def split: sum.splits)
  show "PredictProposer c vs h = Inr p \<Longrightarrow> SelectValidator s (ID c) (cvAddress p) = Inr v \<Longrightarrow>
         fst (verifyProposer c ch vs h s E) = Inl ErrAuctionFinished"
    using sa a by (simp add: verifyProposer_def Let_def)
qed

lemma verifyAuction_fails:
  assumes "finished s (ID c) h"
  shows "isl (fst (verifyAuction c h off s E))"
  using verifyProposer_fails(1)[OF assms]
  by (simp add: verifyAuction_def Let_def split: sum.splits)

lemma claimV1_fails:
  assumes "finished s (ID c) h"
  shows "isl (fst (claimV1 L c ch vs s E h va mb mg txl sg))"
    and "PredictProposer c vs h = Inr p \<Longrightarrow> cvAddress p = va \<Longrightarrow>
         VerifySignature c (cvPubKeyType p) (cvPubKeyBytes p)
             (BuildBlockRequestSignBytes L (ID c) h va mb mg (mekabuild_HashTxs L txl)) sg = None \<Longrightarrow>
         fst (claimV1 L c ch vs s E h va mb mg txl sg) = Inl ErrAuctionFinished"
proof -
  obtain a where a: "auctions s (ID c, h) = Some a" "aFinishedAt a \<noteq> 0"
    using assms by (auto simp: finished_def split: option.splits)
  have sa: "\<And>v. SelectAuction (snd (UpsertValidator s E v)) (ID c) h = Inr a"
    using a by (simp add: SelectAuction_def)
  show "isl (fst (claimV1 L c ch vs s E h va mb mg txl sg))"
    using sa a by (simp add: claimV1_def Let_def split: sum.splits option.splits)
  show "PredictProposer c vs h = Inr p \<Longrightarrow> cvAddress p = va \<Longrightarrow>
         VerifySignature c (cvPubKeyType p) (cvPubKeyBytes p)
             (BuildBlockRequestSignBytes L (ID c) h va mb mg (mekabuild_HashTxs L txl)) sg = None \<Longrightarrow>
         fst (claimV1 L c ch vs s E h va mb mg txl sg) = Inl ErrAuctionFinished"
    using sa a by (simp add: claimV1_def Let_def)
qed


text \<open>
  Claim C4, amended.  Once the auction of a chain and height is finished, an \<open>Auction\<close>,
  \<open>Bid\<close>, \<open>Build\<close> or \<open>BuildV1\<close> request for it fails.  It fails with
  \<open>ErrAuctionFinished\<close> when it gets as far as the auction row: the chain row, the latest
  height, the validator set, the window check and the proposer prediction succeed and
  the proposer is registered (for \<open>BuildV1\<close>: is the caller, with a good signature); an
  earlier check that fails gives its own error.  And no request of the four, for any
  chain and height, makes a finished auction unfinished (the clock never reads zero).
\<close>

theorem C4_finished_never_reopens:
  assumes "finished s (ID c) h"
  shows
    "isl (fst (Auction_ep c s E h)) \<and>
     isl (fst (Bid_ep L c s E h kind txl)) \<and>
     isl (fst (Build_ep L c s E h va mb mg txl sg)) \<and>
     isl (fst (BuildV1_ep L c s E h va mb mg txl sg)) \<and>
     (SelectChain s (ID c) = Inr ch \<and> LatestHeight c = Inr lh \<and>
      GetValidatorSet c lh = Inr vs \<and> vsHeight vs = lh \<and> \<not> h <s lh \<and>
      PredictProposer c vs h = Inr p \<longrightarrow>
        (\<not> lh + 10 <s h \<and> SelectValidator s (ID c) (cvAddress p) = Inr v \<longrightarrow>
           fst (Auction_ep c s E h) = Inl ErrAuctionFinished \<and>
           fst (Bid_ep L c s E h kind txl) = Inl ErrAuctionFinished) \<and>
        (\<not> lh + 2 <s h \<and> SelectValidator s (ID c) (cvAddress p) = Inr v \<longrightarrow>
           fst (Build_ep L c s E h va mb mg txl sg) = Inl ErrAuctionFinished) \<and>
        (\<not> lh + 2 <s h \<and> cvAddress p = va \<and>
         VerifySignature c (cvPubKeyType p) (cvPubKeyBytes p)
           (BuildBlockRequestSignBytes L (ID c) h va mb mg (mekabuild_HashTxs L txl)) sg = None \<longrightarrow>
           fst (BuildV1_ep L c s E h va mb mg txl sg) = Inl ErrAuctionFinished)) \<and>
     (time_Now E' \<noteq> 0 \<longrightarrow>
        finished (snd (Auction_ep c' s E' h')) (ID c) h \<and>
        finished (snd (Bid_ep L c' s E' h' kind' txl')) (ID c) h \<and>
        finished (snd (Build_ep L c' s E' h' va' mb' mg' txl' sg')) (ID c) h \<and>
        finished (snd (BuildV1_ep L c' s E' h' va' mb' mg' txl' sg')) (ID c) h)"
proof (intro conjI impI)
  have va: "\<And>off. isl (fst (verifyAuction c h off s E))"
    by (rule verifyAuction_fails[OF assms])
  show "isl (fst (Auction_ep c s E h))"
    using va[of 10] by (auto simp: Auction_ep_def split: prod.splits sum.splits)
  then show "isl (fst (Bid_ep L c s E h kind txl))"
    by (auto simp: Bid_ep_def split: prod.splits sum.splits)
  show "isl (fst (Build_ep L c s E h va mb mg txl sg))"
    using va[of 2] by (auto simp: Build_ep_def split: prod.splits sum.splits)
  show "isl (fst (BuildV1_ep L c s E h va mb mg txl sg))"
    using claimV1_fails(1)[OF assms]
    by (simp add: BuildV1_ep_def Let_def split: sum.splits)
next
  assume a: "SelectChain s (ID c) = Inr ch \<and> LatestHeight c = Inr lh \<and>
      GetValidatorSet c lh = Inr vs \<and> vsHeight vs = lh \<and> \<not> h <s lh \<and>
      PredictProposer c vs h = Inr p"
  {
    assume b: "\<not> lh + 10 <s h \<and> SelectValidator s (ID c) (cvAddress p) = Inr v"
    have "fst (verifyAuction c h 10 s E) = Inl ErrAuctionFinished"
      using a b verifyProposer_fails(2)[OF assms, of vs p v ch E]
      by (simp add: verifyAuction_def Let_def)
    then show "fst (Auction_ep c s E h) = Inl ErrAuctionFinished"
      by (auto simp: Auction_ep_def split: prod.splits sum.splits)
    then show "fst (Bid_ep L c s E h kind txl) = Inl ErrAuctionFinished"
      by (auto simp: Bid_ep_def split: prod.splits sum.splits)
  }
  {
    assume b: "\<not> lh + 2 <s h \<and> SelectValidator s (ID c) (cvAddress p) = Inr v"
    have "fst (verifyAuction c h 2 s E) = Inl ErrAuctionFinished"
      using a b verifyProposer_fails(2)[OF assms, of vs p v ch E]
      by (simp add: verifyAuction_def Let_def)
    then show "fst (Build_ep L c s E h va mb mg txl sg) = Inl ErrAuctionFinished"
      by (auto simp: Build_ep_def split: prod.splits sum.splits)
  }
  {
    assume b: "\<not> lh + 2 <s h \<and> cvAddress p = va \<and>
         VerifySignature c (cvPubKeyType p) (cvPubKeyBytes p)
           (BuildBlockRequestSignBytes L (ID c) h va mb mg (mekabuild_HashTxs L txl)) sg = None"
    show "fst (BuildV1_ep L c s E h va mb mg txl sg) = Inl ErrAuctionFinished"
      using a b claimV1_fails(2)[OF assms, of vs p va L mb mg txl sg ch E]
      by (simp add: BuildV1_ep_def Let_def)
  }
next
  assume n: "time_Now E' \<noteq> 0"
  show "finished (snd (Auction_ep c' s E' h')) (ID c) h"
    by (rule Auction_ep_finished[OF assms])
  show "finished (snd (Bid_ep L c' s E' h' kind' txl')) (ID c) h"
    by (rule Bid_ep_finished[OF assms])
  show "finished (snd (Build_ep L c' s E' h' va' mb' mg' txl' sg')) (ID c) h"
    by (rule Build_ep_finished[OF assms n])
  show "finished (snd (BuildV1_ep L c' s E' h' va' mb' mg' txl' sg')) (ID c) h"
    by (rule BuildV1_ep_finished[OF assms n])
qed

theorem C4_witness:
  "finished (test_store_with (test_auction 11 5)) (ID (test_chain 10 [])) 11 \<and>
   fst (Auction_ep (test_chain 10 []) (test_store_with (test_auction 11 5)) test_env 11) =
     Inl ErrAuctionFinished \<and>
   fst (Bid_ep test_lib (test_chain 10 []) (test_store_with (test_auction 11 5)) test_env 11
          ''top'' []) = Inl ErrAuctionFinished \<and>
   fst (Build_ep test_lib (test_chain 10 []) (test_store_with (test_auction 11 5)) test_env 11
          ''VAL1'' (- 1) (- 1) [] []) = Inl ErrAuctionFinished \<and>
   fst (BuildV1_ep test_lib (test_chain 10 []) (test_store_with (test_auction 11 5)) test_env 11
          ''VAL1'' (- 1) (- 1) [] []) = Inl ErrAuctionFinished \<and>
   time_Now test_env \<noteq> 0 \<and>
   fst (Build_ep test_lib (test_chain 10 []) (test_store_with (test_auction 11 5)) test_env 10
          ''VAL1'' (- 1) (- 1) [] []) = Inr ([], 0, ''uzen'') \<and>
   finished (snd (Build_ep test_lib (test_chain 10 []) (test_store_with (test_auction 11 5))
          test_env 10 ''VAL1'' (- 1) (- 1) [] [])) (ID (test_chain 10 [])) 11"
proof -
  let ?s = "test_store_with (test_auction 11 5)"
  let ?c = "test_chain 10 []"
  have fin: "finished ?s (ID ?c) 11" by code_simp
  have hy: "SelectChain ?s (ID ?c) = Inr test_chain_row \<and> LatestHeight ?c = Inr 10 \<and>
      GetValidatorSet ?c 10 = Inr (test_valset 10) \<and> vsHeight (test_valset 10) = 10 \<and>
      \<not> (11 :: int64) <s 10 \<and> PredictProposer ?c (test_valset 10) 11 = Inr test_proposer"
    by (simp add: test_chain_def table_chain_def SelectChain_def test_store_with_def
        test_store_def NewStore_def test_valset_def)
  have sv: "SelectValidator ?s (ID ?c) (cvAddress test_proposer) = Inr test_validator"
    by (simp add: test_chain_def table_chain_def SelectValidator_def test_store_with_def
        test_store_def NewStore_def test_proposer_def)
  have w10: "\<not> (10 :: int64) + 10 <s 11" and w2: "\<not> (10 :: int64) + 2 <s 11" by simp_all
  have sig: "cvAddress test_proposer = ''VAL1'' \<and>
         VerifySignature ?c (cvPubKeyType test_proposer) (cvPubKeyBytes test_proposer)
           (BuildBlockRequestSignBytes test_lib (ID ?c) 11 ''VAL1'' (- 1) (- 1)
              (mekabuild_HashTxs test_lib [])) [] = None"
    by (simp add: test_chain_def table_chain_def test_proposer_def)
  have now: "time_Now test_env \<noteq> 0" by (simp add: test_env_def)
  have ok: "fst (Build_ep test_lib ?c ?s test_env 10 ''VAL1'' (- 1) (- 1) [] []) =
      Inr ([], 0, ''uzen'')"
    by code_simp
  note t = C4_finished_never_reopens[OF fin, where E = test_env and L = test_lib
      and kind = "''top''" and txl = "[]" and va = "''VAL1''" and mb = "- 1" and mg = "- 1"
      and sg = "[]" and ch = test_chain_row and lh = 10 and vs = "test_valset 10"
      and p = test_proposer and v = test_validator and E' = test_env and c' = ?c and h' = 10
      and kind' = "''top''" and txl' = "[]" and va' = "''VAL1''" and mb' = "- 1" and mg' = "- 1"
      and sg' = "[]"]
  note t2 = t[THEN conjunct2, THEN conjunct2, THEN conjunct2, THEN conjunct2]
  note e = t2[THEN conjunct1, THEN mp, OF hy]
  note e1 = e[THEN conjunct1, THEN mp, OF conjI[OF w10 sv]]
  note e2 = e[THEN conjunct2, THEN conjunct1, THEN mp, OF conjI[OF w2 sv]]
  note e3 = e[THEN conjunct2, THEN conjunct2, THEN mp, OF conjI[OF w2 sig]]
  note k = t2[THEN conjunct2, THEN mp, OF now]
  show ?thesis
    by (intro conjI fin e1[THEN conjunct1] e1[THEN conjunct2] e2 e3 now ok
        k[THEN conjunct2, THEN conjunct2, THEN conjunct1])
qed

text \<open>
  Claim C4 as stated fails: the auction of height 11 is finished and the chain has
  moved on to height 12; an \<open>Auction\<close> request for height 11 fails with
  \<open>ErrAuctionTooOld\<close>, not with \<open>ErrAuctionFinished\<close>.
\<close>

theorem C4_counterexample:
  "finished (test_store_with (test_auction 11 5)) (ID (test_chain 12 [])) 11 \<and>
   fst (Auction_ep (test_chain 12 []) (test_store_with (test_auction 11 5)) test_env 11) =
     Inl ErrAuctionTooOld"
  by code_simp

end
